theory Spec2Isabelle
  imports Complex_Main "HOL-Library.Word"
begin

section \<open>Geometry primitives\<close>

text \<open>
  \<^verbatim>\<open>Dim3\<close> is the integer 3-vector of \<^verbatim>\<open>stencil/dim3.hpp\<close>. The header is not among
  the sources; its three components are signed 64-bit integers (the tests iterate over
  them with \<^verbatim>\<open>int64_t\<close> and print them with \<^verbatim>\<open>%ld\<close>). They are modelled as
  unbounded integers: no extent in this development comes near \<open>2^63\<close>.
\<close>

record Dim3 =
  x :: int
  y :: int
  z :: int

definition mkDim3 :: "int \<Rightarrow> int \<Rightarrow> int \<Rightarrow> Dim3" where
  "mkDim3 a b c = \<lparr>x = a, y = b, z = c\<rparr>"

text \<open>C++ integer division and remainder truncate towards zero.\<close>

definition cdiv :: "int \<Rightarrow> int \<Rightarrow> int" where
  "cdiv a b = sgn a * sgn b * (\<bar>a\<bar> div \<bar>b\<bar>)"

definition cmod :: "int \<Rightarrow> int \<Rightarrow> int" where
  "cmod a b = sgn a * (\<bar>a\<bar> mod \<bar>b\<bar>)"

text \<open>Modelled from the spec: the componentwise arithmetic of \<^verbatim>\<open>Dim3\<close>
  (\<^verbatim>\<open>operator+\<close>, \<^verbatim>\<open>operator-\<close>, \<^verbatim>\<open>operator*\<close>, \<^verbatim>\<open>operator/\<close>, \<^verbatim>\<open>operator%\<close>), which
  \<^verbatim>\<open>stencil/dim3.hpp\<close> declares and the sources only use.\<close>

definition dim3_add :: "Dim3 \<Rightarrow> Dim3 \<Rightarrow> Dim3" where
  "dim3_add a b = mkDim3 (x a + x b) (y a + y b) (z a + z b)"

definition dim3_sub :: "Dim3 \<Rightarrow> Dim3 \<Rightarrow> Dim3" where
  "dim3_sub a b = mkDim3 (x a - x b) (y a - y b) (z a - z b)"

definition dim3_mul :: "Dim3 \<Rightarrow> Dim3 \<Rightarrow> Dim3" where
  "dim3_mul a b = mkDim3 (x a * x b) (y a * y b) (z a * z b)"

definition dim3_div :: "Dim3 \<Rightarrow> Dim3 \<Rightarrow> Dim3" where
  "dim3_div a b = mkDim3 (cdiv (x a) (x b)) (cdiv (y a) (y b)) (cdiv (z a) (z b))"

definition dim3_mod :: "Dim3 \<Rightarrow> Dim3 \<Rightarrow> Dim3" where
  "dim3_mod a b = mkDim3 (cmod (x a) (x b)) (cmod (y a) (y b)) (cmod (z a) (z b))"

text \<open>Modelled from the spec: \<^verbatim>\<open>Dim3::flatten\<close>, the number of points of an extent.\<close>

definition flatten :: "Dim3 \<Rightarrow> int" where
  "flatten a = x a * y a * z a"

section \<open>Prime-factor partitioner\<close>

text \<open>
  \<^verbatim>\<open>PFP::prime_factors\<close>. The two \<^verbatim>\<open>while (n % i == 0)\<close> loops do not exit for
  \<open>n = 0\<close>; they are partial functions whose value \<open>None\<close> is "does not return".
  \<^verbatim>\<open>push_back\<close> appends at the end of \<open>result\<close>.
\<close>

partial_function (option) divide_out :: "nat \<Rightarrow> nat \<Rightarrow> nat list \<Rightarrow> (nat \<times> nat list) option" where
  "divide_out i n result =
     (if n mod i = 0 then divide_out i (n div i) (result @ [i]) else Some (n, result))"

declare divide_out.simps [code]

text \<open>
  The loop \<^verbatim>\<open>for (int i = 3; i <= sqrt(n); i = i + 2)\<close>. For a nonnegative \<open>i\<close> the
  test \<open>i \<le> sqrt n\<close> is \<open>i * i \<le> n\<close>.
\<close>

partial_function (option) odd_factors :: "nat \<Rightarrow> nat \<Rightarrow> nat list \<Rightarrow> (nat \<times> nat list) option" where
  "odd_factors i n result =
     (if i * i \<le> n
      then (case divide_out i n result of
              None \<Rightarrow> None
            | Some nr \<Rightarrow> odd_factors (i + 2) (fst nr) (snd nr))
      else Some (n, result))"

declare odd_factors.simps [code]

text \<open>The final \<^verbatim>\<open>std::sort\<close> with comparator \<open>b < a\<close> orders the factors descending.\<close>

definition prime_factors :: "nat \<Rightarrow> nat list option" where
  "prime_factors n =
     (case divide_out 2 n [] of
        None \<Rightarrow> None
      | Some nr \<Rightarrow>
          (case odd_factors 3 (fst nr) (snd nr) of
             None \<Rightarrow> None
           | Some nr' \<Rightarrow>
               Some (rev (sort (if 2 < fst nr' then snd nr' @ [fst nr'] else snd nr')))))"

text \<open>
  \<^verbatim>\<open>PFP::cubeness\<close> divides two doubles. The quotient of two integers below \<open>2^26\<close> is
  rounded to a double monotonically and injectively, so comparing the doubles is comparing
  the exact quotients; the model uses rationals. With every extent at least 1 the
  divisor is never 0.
\<close>

definition cubeness :: "rat \<Rightarrow> rat \<Rightarrow> rat \<Rightarrow> rat" where
  "cubeness a b c =
     (let smallest = min a (min b c);
          largest = max a (max b c)
      in smallest / largest)"

text \<open>\<^verbatim>\<open>PFP::div_ceil\<close> on \<^verbatim>\<open>size_t\<close>.\<close>

definition div_ceil :: "nat \<Rightarrow> nat \<Rightarrow> nat" where
  "div_ceil n d = (n + d - 1) div d"

text \<open>
  One iteration of either splitting loop of the constructor \<^verbatim>\<open>PFP::PFP\<close>. The pair is
  the running \<^verbatim>\<open>domSize_\<close> and the grid being built (\<^verbatim>\<open>rankDim_\<close> in the first loop,
  \<^verbatim>\<open>gpuDim_\<close> in the second). The second test compares \<^verbatim>\<open>ySplitCubeness\<close> with
  \<^verbatim>\<open>std::max(xSplitCubeness, ySplitCubeness)\<close>, as the source does.
\<close>

definition split_step :: "Dim3 \<times> Dim3 \<Rightarrow> nat \<Rightarrow> Dim3 \<times> Dim3" where
  "split_step st amt =
     (let domSize = fst st; dim = snd st in
      if amt < 2 then st
      else
        let xSplitCubeness =
              cubeness (of_nat (div_ceil (nat (x domSize)) amt)) (of_int (y domSize)) (of_int (z domSize));
            ySplitCubeness =
              cubeness (of_int (x domSize)) (of_nat (div_ceil (nat (y domSize)) amt)) (of_int (z domSize));
            zSplitCubeness =
              cubeness (of_int (x domSize)) (of_int (y domSize)) (of_nat (div_ceil (nat (z domSize)) amt))
        in
          if xSplitCubeness \<ge> max ySplitCubeness zSplitCubeness
          then (domSize\<lparr>x := int (div_ceil (nat (x domSize)) amt)\<rparr>, dim\<lparr>x := x dim * int amt\<rparr>)
          else if ySplitCubeness \<ge> max xSplitCubeness ySplitCubeness
          then (domSize\<lparr>y := int (div_ceil (nat (y domSize)) amt)\<rparr>, dim\<lparr>y := y dim * int amt\<rparr>)
          else (domSize\<lparr>z := int (div_ceil (nat (z domSize)) amt)\<rparr>, dim\<lparr>z := z dim * int amt\<rparr>))"

record PFP =
  pfp_gpus :: nat
  pfp_ranks :: nat
  pfp_size :: Dim3
  pfp_gpuDim :: Dim3
  pfp_rankDim :: Dim3
  pfp_domSize :: Dim3

text \<open>The constructor \<^verbatim>\<open>PFP::PFP(domSize, ranks, gpus)\<close>.\<close>

definition PFP_ctor :: "Dim3 \<Rightarrow> nat \<Rightarrow> nat \<Rightarrow> PFP option" where
  "PFP_ctor domSize ranks gpus =
     (case prime_factors ranks of
        None \<Rightarrow> None
      | Some rankFactors \<Rightarrow>
          (let st1 = foldl split_step (domSize, mkDim3 1 1 1) rankFactors in
           case prime_factors gpus of
             None \<Rightarrow> None
           | Some gpuFactors \<Rightarrow>
               (let st2 = foldl split_step (fst st1, mkDim3 1 1 1) gpuFactors in
                Some \<lparr>pfp_gpus = gpus, pfp_ranks = ranks, pfp_size = domSize,
                      pfp_gpuDim = snd st2, pfp_rankDim = snd st1, pfp_domSize = fst st2\<rparr>)))"

text \<open>\<^verbatim>\<open>PFP::local_domain_size\<close>.\<close>

definition local_domain_size :: "PFP \<Rightarrow> Dim3 \<Rightarrow> Dim3" where
  "local_domain_size p idx =
     (let ret = pfp_domSize p;
          rem = dim3_mod (pfp_size p) (dim3_mul (pfp_rankDim p) (pfp_gpuDim p));
          ret = (if x rem \<noteq> 0 \<and> x idx \<ge> x rem then ret\<lparr>x := x ret - 1\<rparr> else ret);
          ret = (if y rem \<noteq> 0 \<and> y idx \<ge> y rem then ret\<lparr>y := y ret - 1\<rparr> else ret);
          ret = (if z rem \<noteq> 0 \<and> z idx \<ge> z rem then ret\<lparr>z := z ret - 1\<rparr> else ret)
      in ret)"

text \<open>
  The invariant of both splitting loops: every grid extent is at least 1 and the running
  extent of an axis is the global extent divided, rounding up, by the number of parts made
  so far on that axis (\<open>m\<close> holds the parts made by an earlier loop).
\<close>

definition split_inv :: "Dim3 \<Rightarrow> Dim3 \<Rightarrow> Dim3 \<times> Dim3 \<Rightarrow> bool" where
  "split_inv X m st \<longleftrightarrow>
     1 \<le> x (snd st) \<and> 1 \<le> y (snd st) \<and> 1 \<le> z (snd st) \<and>
     x (fst st) = int (div_ceil (nat (x X)) (nat (x m * x (snd st)))) \<and>
     y (fst st) = int (div_ceil (nat (y X)) (nat (y m * y (snd st)))) \<and>
     z (fst st) = int (div_ceil (nat (z X)) (nat (z m * z (snd st))))"

section \<open>Halo geometry\<close>

text \<open>Modelled from the spec: \<^verbatim>\<open>Radius\<close> (\<^verbatim>\<open>stencil/radius.hpp\<close> is not among the sources), a
  halo thickness per axis and per side: six nonnegative integers. \<^verbatim>\<open>radius.x(d)\<close> is the
  thickness on the side \<open>d\<close> of the x axis; the sources call it with \<open>d = 1\<close> and \<open>d = -1\<close>
  only.\<close>

record Radius =
  x_neg :: nat
  x_pos :: nat
  y_neg :: nat
  y_pos :: nat
  z_neg :: nat
  z_pos :: nat

definition radius_x :: "Radius \<Rightarrow> int \<Rightarrow> nat" where
  "radius_x r d = (if d = 1 then x_pos r else x_neg r)"

definition radius_y :: "Radius \<Rightarrow> int \<Rightarrow> nat" where
  "radius_y r d = (if d = 1 then y_pos r else y_neg r)"

definition radius_z :: "Radius \<Rightarrow> int \<Rightarrow> nat" where
  "radius_z r d = (if d = 1 then z_pos r else z_neg r)"

text \<open>Modelled from the spec: \<^verbatim>\<open>Radius::constant(r)\<close>, the same thickness on all six sides.\<close>

definition radius_constant :: "nat \<Rightarrow> Radius" where
  "radius_constant r = \<lparr>x_neg = r, x_pos = r, y_neg = r, y_pos = r, z_neg = r, z_pos = r\<rparr>"

text \<open>The three assertions on \<open>dir\<close> that open \<^verbatim>\<open>halo_extent\<close> and \<^verbatim>\<open>halo_pos\<close>.\<close>

definition dir_ok :: "Dim3 \<Rightarrow> bool" where
  "dir_ok dir \<longleftrightarrow> x dir \<ge> -1 \<and> x dir \<le> 1 \<and> y dir \<ge> -1 \<and> y dir \<le> 1 \<and> z dir \<ge> -1 \<and> z dir \<le> 1"

text \<open>Modelled from the spec: the opposite direction \<open>-d\<close> (\<^verbatim>\<open>dir * -1\<close>).\<close>

definition dim3_neg :: "Dim3 \<Rightarrow> Dim3" where
  "dim3_neg a = mkDim3 (- x a) (- y a) (- z a)"

text \<open>\<^verbatim>\<open>LocalDomain::halo_extent(dir, sz, radius)\<close> with a \<^verbatim>\<open>Radius\<close> (the version with an
  asymmetric radius). A failed assertion is \<open>None\<close>.\<close>

definition halo_extent :: "Dim3 \<Rightarrow> Dim3 \<Rightarrow> Radius \<Rightarrow> Dim3 option" where
  "halo_extent dir sz radius =
     (if \<not> dir_ok dir then None
      else Some (mkDim3 (if 0 = x dir then x sz else int (radius_x radius (x dir)))
                        (if 0 = y dir then y sz else int (radius_y radius (y dir)))
                        (if 0 = z dir then z sz else int (radius_z radius (z dir)))))"

text \<open>\<^verbatim>\<open>LocalDomain::halo_extent(dir, sz, radius)\<close> with a scalar \<^verbatim>\<open>size_t radius\<close> (the version
  the exchange engine of these sources is built on).\<close>

definition halo_extent_scalar :: "Dim3 \<Rightarrow> Dim3 \<Rightarrow> nat \<Rightarrow> Dim3 option" where
  "halo_extent_scalar dir sz radius =
     (if \<not> dir_ok dir then None
      else Some (mkDim3 (if x dir \<noteq> 0 then int radius else x sz)
                        (if y dir \<noteq> 0 then int radius else y sz)
                        (if z dir \<noteq> 0 then int radius else z sz)))"

definition radius_symmetric :: "Radius \<Rightarrow> bool" where
  "radius_symmetric r \<longleftrightarrow> x_neg r = x_pos r \<and> y_neg r = y_pos r \<and> z_neg r = z_pos r"

section \<open>Topology probe\<close>

text \<open>
  The status codes of the CUDA runtime that the constructor names. \<^verbatim>\<open>cudaError_t\<close> is an
  enumeration of the CUDA headers; a status is modelled by its integer value.
\<close>

type_synonym cudaError_t = nat

definition cudaSuccess :: cudaError_t where
  "cudaSuccess = 0"

definition cudaErrorInvalidDevice :: cudaError_t where
  "cudaErrorInvalidDevice = 101"

definition cudaErrorPeerAccessAlreadyEnabled :: cudaError_t where
  "cudaErrorPeerAccessAlreadyEnabled = 704"

text \<open>
  How the constructor can stop: the macro \<^verbatim>\<open>CUDA_RUNTIME\<close> ends the process on a status
  other than success, and \<^verbatim>\<open>assert(0)\<close> aborts.
\<close>

datatype ctor_error = CudaFatal cudaError_t | AssertFailed

text \<open>
  The body of the inner loop of the peer-access probe of \<^verbatim>\<open>DistributedDomain::DistributedDomain\<close>,
  for one pair \<open>(src, dst)\<close>. \<open>setDevice src\<close> is the status of \<^verbatim>\<open>cudaSetDevice(src)\<close> and
  \<open>enablePeer src dst\<close> the status of \<^verbatim>\<open>cudaDeviceEnablePeerAccess(dst, 0)\<close> called with
  \<open>src\<close> current. The second test is the constant \<^verbatim>\<open>cudaErrorInvalidDevice\<close> itself, as
  in the source.
\<close>

definition peer_pair ::
  "(nat \<Rightarrow> cudaError_t) \<Rightarrow> (nat \<Rightarrow> nat \<Rightarrow> cudaError_t) \<Rightarrow> nat \<Rightarrow> nat \<Rightarrow> bool list list
     \<Rightarrow> ctor_error + bool list list" where
  "peer_pair setDevice enablePeer src dst peerAccess =
     (if src = dst then Inr (peerAccess[src := (peerAccess ! src)[dst := True]])
      else if setDevice src \<noteq> cudaSuccess then Inl (CudaFatal (setDevice src))
      else
        let err = enablePeer src dst in
        if cudaSuccess = err \<or> cudaErrorPeerAccessAlreadyEnabled = err
        then Inr (peerAccess[src := (peerAccess ! src)[dst := True]])
        else if cudaErrorInvalidDevice \<noteq> 0
        then Inr (peerAccess[src := (peerAccess ! src)[dst := False]])
        else Inl AssertFailed)"

text \<open>The loop over \<open>dst\<close> and the loop over \<open>src\<close>; an error ends both.\<close>

fun peer_dst_loop ::
  "(nat \<Rightarrow> cudaError_t) \<Rightarrow> (nat \<Rightarrow> nat \<Rightarrow> cudaError_t) \<Rightarrow> nat \<Rightarrow> nat list \<Rightarrow> bool list list
     \<Rightarrow> ctor_error + bool list list" where
  "peer_dst_loop setDevice enablePeer src [] peerAccess = Inr peerAccess"
| "peer_dst_loop setDevice enablePeer src (dst # dsts) peerAccess =
     (case peer_pair setDevice enablePeer src dst peerAccess of
        Inl e \<Rightarrow> Inl e
      | Inr peerAccess' \<Rightarrow> peer_dst_loop setDevice enablePeer src dsts peerAccess')"

fun peer_src_loop ::
  "(nat \<Rightarrow> cudaError_t) \<Rightarrow> (nat \<Rightarrow> nat \<Rightarrow> cudaError_t) \<Rightarrow> nat \<Rightarrow> nat list \<Rightarrow> bool list list
     \<Rightarrow> ctor_error + bool list list" where
  "peer_src_loop setDevice enablePeer deviceCount [] peerAccess = Inr peerAccess"
| "peer_src_loop setDevice enablePeer deviceCount (src # srcs) peerAccess =
     (case peer_dst_loop setDevice enablePeer src [0..<deviceCount] peerAccess of
        Inl e \<Rightarrow> Inl e
      | Inr peerAccess' \<Rightarrow> peer_src_loop setDevice enablePeer deviceCount srcs peerAccess')"

text \<open>The probe: \<^verbatim>\<open>peerAccess_\<close> starts as a \<open>deviceCount \<times> deviceCount\<close> matrix of
  \<^verbatim>\<open>false\<close>.\<close>

definition enable_peer_access ::
  "(nat \<Rightarrow> cudaError_t) \<Rightarrow> (nat \<Rightarrow> nat \<Rightarrow> cudaError_t) \<Rightarrow> nat \<Rightarrow> ctor_error + bool list list" where
  "enable_peer_access setDevice enablePeer deviceCount =
     peer_src_loop setDevice enablePeer deviceCount [0..<deviceCount]
       (replicate deviceCount (replicate deviceCount False))"

text \<open>The value the probe records for a pair.\<close>

definition peer_value :: "(nat \<Rightarrow> nat \<Rightarrow> cudaError_t) \<Rightarrow> nat \<Rightarrow> nat \<Rightarrow> bool" where
  "peer_value enablePeer src dst \<longleftrightarrow>
     src = dst \<or> enablePeer src dst = cudaSuccess \<or> enablePeer src dst = cudaErrorPeerAccessAlreadyEnabled"

text \<open>A matrix with \<open>n\<close> rows of \<open>n\<close> entries.\<close>

definition square :: "nat \<Rightarrow> bool list list \<Rightarrow> bool" where
  "square n m \<longleftrightarrow> length m = n \<and> list_all (\<lambda>row. length row = n) m"

section \<open>Communication plan\<close>

text \<open>Modelled from the spec: \<^verbatim>\<open>Dim3::wrap\<close>, the componentwise periodic wrap into
  \<open>[0, lims)\<close> with a nonnegative result for negative operands.\<close>

definition wrap :: "Dim3 \<Rightarrow> Dim3 \<Rightarrow> Dim3" where
  "wrap a lims = mkDim3 (x a mod x lims) (y a mod y lims) (z a mod z lims)"

text \<open>\<^verbatim>\<open>PFP::get_rank\<close> and \<^verbatim>\<open>PFP::get_gpu\<close>.\<close>

definition get_rank :: "PFP \<Rightarrow> Dim3 \<Rightarrow> int" where
  "get_rank p idx =
     (let rankIdx = dim3_div idx (pfp_gpuDim p) in
      x rankIdx + y rankIdx * x (pfp_rankDim p) + z rankIdx * y (pfp_rankDim p) * x (pfp_rankDim p))"

definition get_gpu :: "PFP \<Rightarrow> Dim3 \<Rightarrow> int" where
  "get_gpu p idx =
     (let gpuIdx = dim3_mod idx (pfp_gpuDim p) in
      x gpuIdx + y gpuIdx * x (pfp_gpuDim p) + z gpuIdx * y (pfp_gpuDim p) * x (pfp_gpuDim p))"

text \<open>Modelled from the spec: \<^verbatim>\<open>DirectionMap\<close> (\<^verbatim>\<open>stencil/direction_map.hpp\<close> is not among
  the sources), a fixed array of 27 cells; \<^verbatim>\<open>at(x, y, z)\<close> takes indices in \<open>{0, 1, 2}\<close>, and
  \<^verbatim>\<open>at_dir(x, y, z)\<close> a direction, stored at index \<open>(z + 1) * 9 + (y + 1) * 3 + (x + 1)\<close>.\<close>

definition dm_index :: "nat \<Rightarrow> nat \<Rightarrow> nat \<Rightarrow> nat" where
  "dm_index a b c = c * 9 + b * 3 + a"

definition dm_at :: "'a list \<Rightarrow> nat \<Rightarrow> nat \<Rightarrow> nat \<Rightarrow> 'a" where
  "dm_at m a b c = m ! dm_index a b c"

definition dm_at_dir :: "'a list \<Rightarrow> Dim3 \<Rightarrow> 'a" where
  "dm_at_dir m d = dm_at m (nat (x d + 1)) (nat (y d + 1)) (nat (z d + 1))"

definition dm_set_dir :: "'a list \<Rightarrow> Dim3 \<Rightarrow> 'a \<Rightarrow> 'a list" where
  "dm_set_dir m d v = m[dm_index (nat (x d + 1)) (nat (y d + 1)) (nat (z d + 1)) := v]"

text \<open>
  The transports \<^verbatim>\<open>realize\<close> constructs, with the arguments of their constructors; a local
  domain is named by its position in \<^verbatim>\<open>domains_\<close>. A pointer to a transport is an option,
  \<open>None\<close> for \<^verbatim>\<open>nullptr\<close>.
\<close>

datatype HaloSender =
    RegionCopier nat nat Dim3
  | PackMemcpyCopier nat nat Dim3
  | RegionSender nat int int int int Dim3

datatype HaloRecver = RegionRecver nat int int int int Dim3

text \<open>Reading a vector beyond its end has no defined behaviour and the model stops there;
  \<^verbatim>\<open>assert(rank_ == partition_->get_rank(myIdx))\<close> aborts when it fails.\<close>

datatype realize_error = OutOfRange | RankAssertFailed

text \<open>
  The choice of the sender in \<^verbatim>\<open>DistributedDomain::realize\<close> for one direction. \<open>gpus\<close> holds
  the device of each local domain (\<^verbatim>\<open>domains_[i].gpu()\<close>).
\<close>

definition plan_sender ::
  "int \<Rightarrow> int set \<Rightarrow> bool list list \<Rightarrow> nat list \<Rightarrow> nat \<Rightarrow> Dim3 \<Rightarrow> int \<Rightarrow> int
     \<Rightarrow> realize_error + HaloSender option" where
  "plan_sender rank colocated peerAccess gpus di dirVec dstRank dstGPU =
     (if rank = dstRank then
        (if di < length gpus \<and> 0 \<le> dstGPU \<and> nat dstGPU < length gpus then
           let myCudaId = gpus ! di; dstCudaId = gpus ! nat dstGPU in
           if myCudaId < length peerAccess \<and> dstCudaId < length (peerAccess ! myCudaId) then
             if peerAccess ! myCudaId ! dstCudaId
             then Inr (Some (RegionCopier (nat dstGPU) di dirVec))
             else Inr (Some (PackMemcpyCopier (nat dstGPU) di dirVec))
           else Inl OutOfRange
         else Inl OutOfRange)
      else if dstRank \<in> colocated
      then Inr (Some (RegionSender di rank (int di) dstRank dstGPU dirVec))
      else Inr (Some (RegionSender di rank (int di) dstRank dstGPU dirVec)))"

text \<open>The choice of the receiver for one direction.\<close>

definition plan_recver ::
  "int \<Rightarrow> int set \<Rightarrow> bool list list \<Rightarrow> nat list \<Rightarrow> nat \<Rightarrow> Dim3 \<Rightarrow> int \<Rightarrow> int
     \<Rightarrow> realize_error + HaloRecver option" where
  "plan_recver rank colocated peerAccess gpus di dirVec srcRank srcGPU =
     (if rank = srcRank then
        (if di < length gpus \<and> 0 \<le> srcGPU \<and> nat srcGPU < length gpus then
           let srcCudaId = gpus ! nat srcGPU; myCudaId = gpus ! di in
           if srcCudaId < length peerAccess \<and> myCudaId < length (peerAccess ! srcCudaId) then
             if peerAccess ! srcCudaId ! myCudaId then Inr None else Inr None
           else Inl OutOfRange
         else Inl OutOfRange)
      else if srcRank \<in> colocated
      then Inr (Some (RegionRecver di srcRank srcGPU rank (int di) dirVec))
      else Inr (Some (RegionRecver di srcRank srcGPU rank (int di) dirVec)))"

text \<open>The body of the three nested loops over \<open>xDir\<close>, \<open>yDir\<close>, \<open>zDir\<close> for the local domain
  \<open>di\<close> with index \<open>myIdx\<close>; the pair is \<open>(dirSender, dirRecver)\<close>.\<close>

definition plan_dir ::
  "PFP \<Rightarrow> int \<Rightarrow> int set \<Rightarrow> bool list list \<Rightarrow> nat list \<Rightarrow> nat \<Rightarrow> Dim3 \<Rightarrow> Dim3
     \<Rightarrow> HaloSender option list \<times> HaloRecver option list
     \<Rightarrow> realize_error + HaloSender option list \<times> HaloRecver option list" where
  "plan_dir p rank colocated peerAccess gpus di myIdx dirVec maps =
     (if dirVec = mkDim3 0 0 0 then Inr maps
      else
        let gpuDim = pfp_gpuDim p;
            rankDim = pfp_rankDim p;
            dstIdx = wrap (dim3_add myIdx dirVec) (dim3_mul rankDim gpuDim);
            srcIdx = wrap (dim3_sub myIdx dirVec) (dim3_mul rankDim gpuDim);
            srcGPU = get_gpu p srcIdx;
            dstGPU = get_gpu p dstIdx;
            srcRank = get_rank p srcIdx;
            dstRank = get_rank p dstIdx
        in
          case plan_sender rank colocated peerAccess gpus di dirVec dstRank dstGPU of
            Inl e \<Rightarrow> Inl e
          | Inr sender \<Rightarrow>
              (case plan_recver rank colocated peerAccess gpus di dirVec srcRank srcGPU of
                 Inl e \<Rightarrow> Inl e
               | Inr recver \<Rightarrow>
                   Inr (dm_set_dir (fst maps) dirVec sender, dm_set_dir (snd maps) dirVec recver)))"

fun plan_dirs ::
  "PFP \<Rightarrow> int \<Rightarrow> int set \<Rightarrow> bool list list \<Rightarrow> nat list \<Rightarrow> nat \<Rightarrow> Dim3 \<Rightarrow> Dim3 list
     \<Rightarrow> HaloSender option list \<times> HaloRecver option list
     \<Rightarrow> realize_error + HaloSender option list \<times> HaloRecver option list" where
  "plan_dirs p rank colocated peerAccess gpus di myIdx [] maps = Inr maps"
| "plan_dirs p rank colocated peerAccess gpus di myIdx (dirVec # dirs) maps =
     (case plan_dir p rank colocated peerAccess gpus di myIdx dirVec maps of
        Inl e \<Rightarrow> Inl e
      | Inr maps' \<Rightarrow> plan_dirs p rank colocated peerAccess gpus di myIdx dirs maps')"

text \<open>The directions in the order of the loops: \<open>xDir\<close> outermost, \<open>zDir\<close> innermost.\<close>

definition loop_dirs :: "Dim3 list" where
  "loop_dirs = concat (map (\<lambda>xDir. concat (map (\<lambda>yDir. map (\<lambda>zDir. mkDim3 xDir yDir zDir)
                  [-1, 0, 1]) [-1, 0, 1])) [-1, 0, 1])"

text \<open>The communication plan of one local domain: both maps start with 27 null cells.\<close>

definition realize_plan ::
  "PFP \<Rightarrow> int \<Rightarrow> int set \<Rightarrow> bool list list \<Rightarrow> nat list \<Rightarrow> nat \<Rightarrow> Dim3
     \<Rightarrow> realize_error + HaloSender option list \<times> HaloRecver option list" where
  "realize_plan p rank colocated peerAccess gpus di myIdx =
     (if rank \<noteq> get_rank p myIdx then Inl RankAssertFailed
      else plan_dirs p rank colocated peerAccess gpus di myIdx loop_dirs
             (replicate 27 None, replicate 27 None))"

section \<open>Local subdomain\<close>

text \<open>
  \<^verbatim>\<open>Array<T>\<close> of \<^verbatim>\<open>stencil/array.hpp\<close>: a size and a data pointer (an address, 0 for
  \<^verbatim>\<open>nullptr\<close>), and its friend \<^verbatim>\<open>swap(Array &a, Array &b)\<close>, which returns both arrays.
\<close>

record Array =
  arr_size :: Dim3
  arr_data :: nat

definition swap_Array :: "Array \<times> Array \<Rightarrow> Array \<times> Array" where
  "swap_Array ab =
     (let a = fst ab; b = snd ab in
      (a\<lparr>arr_size := arr_size b, arr_data := arr_data b\<rparr>,
       b\<lparr>arr_size := arr_size a, arr_data := arr_data a\<rparr>))"

text \<open>
  The fields of \<^verbatim>\<open>LocalDomain\<close> that hold the registered data: for each field the device
  pointers \<^verbatim>\<open>currDataPtrs_\<close> and \<^verbatim>\<open>nextDataPtrs_\<close> (of a type \<open>'p\<close> of pointers) and the
  element size \<^verbatim>\<open>dataElemSize_\<close>, together with the compute size, the radius and the device.
\<close>

record 'p LocalDomain =
  ld_sz :: Dim3
  ld_radius :: nat
  currDataPtrs :: "'p list"
  nextDataPtrs :: "'p list"
  dataElemSize :: "nat list"
  ld_dev :: nat

text \<open>Modelled from the spec: \<^verbatim>\<open>LocalDomain::swap\<close>, which the sources only declare:
  it exchanges the \<^verbatim>\<open>curr\<close> and \<^verbatim>\<open>next\<close> pointer of every field.\<close>

definition ld_swap :: "'p LocalDomain \<Rightarrow> 'p LocalDomain" where
  "ld_swap d = d\<lparr>currDataPtrs := nextDataPtrs d, nextDataPtrs := currDataPtrs d\<rparr>"

text \<open>Modelled from the spec: \<^verbatim>\<open>DistributedDomain::swap\<close>, which invokes the pointer swap of
  every subdomain.\<close>

definition dd_swap :: "'p LocalDomain list \<Rightarrow> 'p LocalDomain list" where
  "dd_swap domains = map ld_swap domains"

section \<open>Packers and translators\<close>

text \<open>
  Device memory is a store of allocations: a pointer names an allocation and the bytes of
  the allocation are indexed from 0. Two different pointers never overlap, which is what
  \<^verbatim>\<open>__restrict__\<close> promises for the arguments of the kernels.
\<close>

type_synonym byte = "8 word"

type_synonym 'p store = "'p \<Rightarrow> nat \<Rightarrow> byte"

text \<open>
  The grid-stride loop \<^verbatim>\<open>for (size_t i = t; i < stop; i += step)\<close>: the values of \<open>i\<close> in
  order. The step is \<^verbatim>\<open>blockDim * gridDim\<close>, which is at least 1 in every launch that runs.
\<close>

function stride_range :: "nat \<Rightarrow> nat \<Rightarrow> nat \<Rightarrow> nat list" where
  "stride_range i step stop =
     (if i < stop \<and> 0 < step then i # stride_range (i + step) step stop else [])"
  by pat_completeness auto
termination
  by (relation "measure (\<lambda>(i, step, stop). stop - i)") auto

text \<open>
  A launch is given by its number of threads on each axis, \<open>(nx, ny, nz)\<close> with
  \<open>nx = blockDim.x * gridDim.x\<close>; a thread by its global coordinates
  \<open>tx = blockDim.x * blockIdx.x + threadIdx.x < nx\<close>. \<open>thread_points\<close> are the index
  triples \<open>(xi, yi, zi)\<close> one thread visits in its three nested loops, \<open>launch_threads\<close>
  the threads of the launch and \<open>launch_points\<close> the triples all of them visit.
\<close>

fun thread_points :: "nat \<times> nat \<times> nat \<Rightarrow> nat \<times> nat \<times> nat \<Rightarrow> Dim3 \<Rightarrow> (nat \<times> nat \<times> nat) list" where
  "thread_points (nx, ny, nz) (tx, ty, tz) extent =
     concat (map (\<lambda>zi. concat (map (\<lambda>yi. map (\<lambda>xi. (xi, yi, zi))
               (stride_range tx nx (nat (x extent))))
               (stride_range ty ny (nat (y extent)))))
               (stride_range tz nz (nat (z extent))))"

fun launch_threads :: "nat \<times> nat \<times> nat \<Rightarrow> (nat \<times> nat \<times> nat) list" where
  "launch_threads (nx, ny, nz) =
     concat (map (\<lambda>tz. concat (map (\<lambda>ty. map (\<lambda>tx. (tx, ty, tz)) [0..<nx]) [0..<ny])) [0..<nz])"

definition launch_points :: "nat \<times> nat \<times> nat \<Rightarrow> Dim3 \<Rightarrow> (nat \<times> nat \<times> nat) list" where
  "launch_points n extent = concat (map (\<lambda>t. thread_points n t extent) (launch_threads n))"

text \<open>\<^verbatim>\<open>memcpy(&dst[doff], &src[soff], n)\<close>, byte after byte. A 32-bit or 64-bit load and
  store moves 4 or 8 bytes in the same way.\<close>

definition copy_bytes :: "'p store \<Rightarrow> 'p \<Rightarrow> nat \<Rightarrow> 'p \<Rightarrow> nat \<Rightarrow> nat \<Rightarrow> 'p store" where
  "copy_bytes st dst doff src soff n =
     fold (\<lambda>b st. st(dst := (st dst)(doff + b := st src (soff + b)))) [0..<n] st"

text \<open>The body of the loops of \<^verbatim>\<open>grid_unpack\<close> at \<open>(xi, yi, zi)\<close>.\<close>

fun unpack_elem ::
  "'p \<Rightarrow> Dim3 \<Rightarrow> Dim3 \<Rightarrow> Dim3 \<Rightarrow> 'p \<Rightarrow> nat \<Rightarrow> nat \<times> nat \<times> nat \<Rightarrow> 'p store \<Rightarrow> 'p store" where
  "unpack_elem dst dstSize dstPos dstExtent src elemSize (xi, yi, zi) st =
       (let zo = zi + nat (z dstPos);
            yo = yi + nat (y dstPos);
            xo = xi + nat (x dstPos);
            oi = zo * nat (y dstSize) * nat (x dstSize) + yo * nat (x dstSize) + xo;
            ii = zi * nat (y dstExtent) * nat (x dstExtent) + yi * nat (x dstExtent) + xi
        in
          if 4 = elemSize then copy_bytes st dst (4 * oi) src (4 * ii) 4
          else if 8 = elemSize then copy_bytes st dst (8 * oi) src (8 * ii) 8
          else copy_bytes st dst (oi * elemSize) src (ii * elemSize) elemSize)"

text \<open>The device function \<^verbatim>\<open>grid_unpack\<close> as run by the thread \<open>t\<close> of a launch \<open>n\<close>, and the
  kernel \<^verbatim>\<open>unpack\<close>, which every thread of the launch runs (its \<^verbatim>\<open>dstPitch\<close> is not used).\<close>

definition grid_unpack ::
  "nat \<times> nat \<times> nat \<Rightarrow> nat \<times> nat \<times> nat \<Rightarrow> 'p \<Rightarrow> Dim3 \<Rightarrow> Dim3 \<Rightarrow> Dim3 \<Rightarrow> 'p \<Rightarrow> nat
     \<Rightarrow> 'p store \<Rightarrow> 'p store" where
  "grid_unpack n t dst dstSize dstPos dstExtent src elemSize st =
     fold (unpack_elem dst dstSize dstPos dstExtent src elemSize) (thread_points n t dstExtent) st"

definition unpack ::
  "nat \<times> nat \<times> nat \<Rightarrow> 'p \<Rightarrow> Dim3 \<Rightarrow> nat \<Rightarrow> Dim3 \<Rightarrow> Dim3 \<Rightarrow> 'p \<Rightarrow> nat \<Rightarrow> 'p store \<Rightarrow> 'p store" where
  "unpack n dst dstSize dstPitch dstPos dstExtent src elemSize st =
     fold (\<lambda>t. grid_unpack n t dst dstSize dstPos dstExtent src elemSize) (launch_threads n) st"

text \<open>Modelled from the spec: \<^verbatim>\<open>grid_pack\<close> and the kernel \<^verbatim>\<open>pack_kernel\<close> of
  \<^verbatim>\<open>stencil/pack_kernel.cuh\<close>, which is not among the sources. Pack is the inverse of
  unpack, \<open>dst[linear i] \<leftarrow> src[pos + i]\<close> for all \<open>i\<close> of the extent, \<open>src\<close> laid out with pitch
  \<open>srcSize\<close>, with the same fast paths for elements of 4 and 8 bytes.\<close>

fun pack_elem ::
  "'p \<Rightarrow> 'p \<Rightarrow> Dim3 \<Rightarrow> Dim3 \<Rightarrow> Dim3 \<Rightarrow> nat \<Rightarrow> nat \<times> nat \<times> nat \<Rightarrow> 'p store \<Rightarrow> 'p store" where
  "pack_elem dst src srcSize srcPos srcExtent elemSize (xi, yi, zi) st =
       (let zo = zi + nat (z srcPos);
            yo = yi + nat (y srcPos);
            xo = xi + nat (x srcPos);
            ii = zo * nat (y srcSize) * nat (x srcSize) + yo * nat (x srcSize) + xo;
            oi = zi * nat (y srcExtent) * nat (x srcExtent) + yi * nat (x srcExtent) + xi
        in
          if 4 = elemSize then copy_bytes st dst (4 * oi) src (4 * ii) 4
          else if 8 = elemSize then copy_bytes st dst (8 * oi) src (8 * ii) 8
          else copy_bytes st dst (oi * elemSize) src (ii * elemSize) elemSize)"

definition grid_pack ::
  "nat \<times> nat \<times> nat \<Rightarrow> nat \<times> nat \<times> nat \<Rightarrow> 'p \<Rightarrow> 'p \<Rightarrow> Dim3 \<Rightarrow> Dim3 \<Rightarrow> Dim3 \<Rightarrow> nat
     \<Rightarrow> 'p store \<Rightarrow> 'p store" where
  "grid_pack n t dst src srcSize srcPos srcExtent elemSize st =
     fold (pack_elem dst src srcSize srcPos srcExtent elemSize) (thread_points n t srcExtent) st"

definition pack_kernel ::
  "nat \<times> nat \<times> nat \<Rightarrow> 'p \<Rightarrow> 'p \<Rightarrow> Dim3 \<Rightarrow> Dim3 \<Rightarrow> Dim3 \<Rightarrow> nat \<Rightarrow> 'p store \<Rightarrow> 'p store" where
  "pack_kernel n dst src srcSize srcPos srcExtent elemSize st =
     fold (\<lambda>t. grid_pack n t dst src srcSize srcPos srcExtent elemSize) (launch_threads n) st"

text \<open>The body of the loops of \<^verbatim>\<open>translate_grid\<close> at \<open>(x, y, z)\<close>, the device function as
  run by one thread, and the kernels \<^verbatim>\<open>translate\<close> and \<^verbatim>\<open>multi_translate\<close>; in the latter
  every thread goes through the \<open>n\<close> fields in turn.\<close>

fun translate_elem ::
  "'p \<Rightarrow> Dim3 \<Rightarrow> Dim3 \<Rightarrow> 'p \<Rightarrow> Dim3 \<Rightarrow> Dim3 \<Rightarrow> nat \<Rightarrow> nat \<times> nat \<times> nat \<Rightarrow> 'p store \<Rightarrow> 'p store" where
  "translate_elem dst dstPos dstSize src srcPos srcSize elemSize (xx, yy, zz) st =
       (let zi = zz + nat (z srcPos);
            yi = yy + nat (y srcPos);
            xi = xx + nat (x srcPos);
            zo = zz + nat (z dstPos);
            yo = yy + nat (y dstPos);
            xo = xx + nat (x dstPos);
            lo = zo * nat (y dstSize) * nat (x dstSize) + yo * nat (x dstSize) + xo;
            li = zi * nat (y srcSize) * nat (x srcSize) + yi * nat (x srcSize) + xi
        in copy_bytes st dst (lo * elemSize) src (li * elemSize) elemSize)"

definition translate_grid ::
  "nat \<times> nat \<times> nat \<Rightarrow> nat \<times> nat \<times> nat \<Rightarrow> 'p \<Rightarrow> Dim3 \<Rightarrow> Dim3 \<Rightarrow> 'p \<Rightarrow> Dim3 \<Rightarrow> Dim3 \<Rightarrow> Dim3 \<Rightarrow> nat
     \<Rightarrow> 'p store \<Rightarrow> 'p store" where
  "translate_grid n t dst dstPos dstSize src srcPos srcSize extent elemSize st =
     fold (translate_elem dst dstPos dstSize src srcPos srcSize elemSize) (thread_points n t extent) st"

definition translate ::
  "nat \<times> nat \<times> nat \<Rightarrow> 'p \<Rightarrow> Dim3 \<Rightarrow> Dim3 \<Rightarrow> 'p \<Rightarrow> Dim3 \<Rightarrow> Dim3 \<Rightarrow> Dim3 \<Rightarrow> nat \<Rightarrow> 'p store \<Rightarrow> 'p store" where
  "translate n dst dstPos dstSize src srcPos srcSize extent elemSize st =
     fold (\<lambda>t. translate_grid n t dst dstPos dstSize src srcPos srcSize extent elemSize)
       (launch_threads n) st"


text \<open>
  A kernel is a sequence of byte copies within the store. \<open>run_copies\<close> performs a list of
  copies \<open>((dst, doff), (src, soff))\<close> in order.
\<close>

definition copy1 :: "('p \<times> nat) \<times> ('p \<times> nat) \<Rightarrow> 'p store \<Rightarrow> 'p store" where
  "copy1 c st = (case c of ((dst, doff), (src, soff)) \<Rightarrow> st(dst := (st dst)(doff := st src soff)))"

definition run_copies :: "(('p \<times> nat) \<times> ('p \<times> nat)) list \<Rightarrow> 'p store \<Rightarrow> 'p store" where
  "run_copies cs st = fold copy1 cs st"

text \<open>The linear index of the point \<open>(a, b, c)\<close> in an array of size \<open>size3\<close>, and the byte
  copies of one \<^verbatim>\<open>memcpy\<close>.\<close>

definition lin :: "Dim3 \<Rightarrow> nat \<Rightarrow> nat \<Rightarrow> nat \<Rightarrow> nat" where
  "lin size3 a b c = c * nat (y size3) * nat (x size3) + b * nat (x size3) + a"

definition bytes_copies :: "'p \<Rightarrow> nat \<Rightarrow> 'p \<Rightarrow> nat \<Rightarrow> nat \<Rightarrow> (('p \<times> nat) \<times> ('p \<times> nat)) list" where
  "bytes_copies dst doff src soff n = map (\<lambda>b. ((dst, doff + b), (src, soff + b))) [0..<n]"

text \<open>The copies made by the three kernels.\<close>

definition unpack_copies ::
  "'p \<Rightarrow> Dim3 \<Rightarrow> Dim3 \<Rightarrow> Dim3 \<Rightarrow> 'p \<Rightarrow> nat \<Rightarrow> nat \<times> nat \<times> nat \<Rightarrow> (('p \<times> nat) \<times> ('p \<times> nat)) list" where
  "unpack_copies dst dstSize dstPos dstExtent src e p =
     (case p of (a, b, c) \<Rightarrow>
        bytes_copies dst (lin dstSize (a + nat (x dstPos)) (b + nat (y dstPos)) (c + nat (z dstPos)) * e)
                     src (lin dstExtent a b c * e) e)"

definition pack_copies ::
  "'p \<Rightarrow> 'p \<Rightarrow> Dim3 \<Rightarrow> Dim3 \<Rightarrow> Dim3 \<Rightarrow> nat \<Rightarrow> nat \<times> nat \<times> nat \<Rightarrow> (('p \<times> nat) \<times> ('p \<times> nat)) list" where
  "pack_copies dst src srcSize srcPos srcExtent e p =
     (case p of (a, b, c) \<Rightarrow>
        bytes_copies dst (lin srcExtent a b c * e)
                     src (lin srcSize (a + nat (x srcPos)) (b + nat (y srcPos)) (c + nat (z srcPos)) * e) e)"

definition translate_copies ::
  "'p \<Rightarrow> Dim3 \<Rightarrow> Dim3 \<Rightarrow> 'p \<Rightarrow> Dim3 \<Rightarrow> Dim3 \<Rightarrow> nat \<Rightarrow> nat \<times> nat \<times> nat \<Rightarrow> (('p \<times> nat) \<times> ('p \<times> nat)) list" where
  "translate_copies dst dstPos dstSize src srcPos srcSize e p =
     (case p of (a, b, c) \<Rightarrow>
        bytes_copies dst (lin dstSize (a + nat (x dstPos)) (b + nat (y dstPos)) (c + nat (z dstPos)) * e)
                     src (lin srcSize (a + nat (x srcPos)) (b + nat (y srcPos)) (c + nat (z srcPos)) * e) e)"

section \<open>Exchange engine\<close>

text \<open>
  \<^verbatim>\<open>LocalDomain::halo_pos\<close>, \<^verbatim>\<open>LocalDomain::halo_extent(dir)\<close> and \<^verbatim>\<open>LocalDomain::raw_size\<close> of
  the version of \<^verbatim>\<open>LocalDomain\<close> with a scalar radius, the one \<^verbatim>\<open>DistributedDomain\<close> is built
  on. \<^verbatim>\<open>halo_pos\<close> runs the same chain of tests on each axis; after the assertions its last
  test \<^verbatim>\<open>0 == dir.x\<close> always holds.
\<close>

definition halo_pos_axis :: "int \<Rightarrow> int \<Rightarrow> nat \<Rightarrow> bool \<Rightarrow> int" where
  "halo_pos_axis d s radius halo =
     (if 1 = d then s + (if halo then int radius else 0)
      else if -1 = d then (if halo then 0 else int radius)
      else int radius)"



















section \<open>Verification of the partitioner\<close>

lemma cmod_nonneg: "0 \<le> a \<Longrightarrow> 0 < b \<Longrightarrow> cmod a b = a mod b"
  by (cases "a = 0") (simp_all add: cmod_def)

lemma divide_out_returns:
  "0 < n \<Longrightarrow> 2 \<le> i \<Longrightarrow> \<exists>n' r'. divide_out i n r = Some (n', r') \<and> 0 < n' \<and> n' \<le> n"
proof (induction n arbitrary: r rule: less_induct)
  case (less n)
  show ?case
  proof (cases "n mod i = 0")
    case True
    from True less.prems have lt: "n div i < n" by simp
    from True less.prems have pos: "0 < n div i"
      by (metis dvd_div_eq_0_iff mod_eq_0_iff_dvd not_gr_zero)
    from less.IH [OF lt pos less.prems(2), of "r @ [i]"]
    obtain n' r' where "divide_out i (n div i) (r @ [i]) = Some (n', r')" "0 < n'" "n' \<le> n div i"
      by blast
    with True lt show ?thesis
      by (subst divide_out.simps) auto
  next
    case False
    with less.prems show ?thesis
      by (subst divide_out.simps) auto
  qed
qed

lemma odd_factors_returns:
  "0 < n \<Longrightarrow> 2 \<le> i \<Longrightarrow> \<exists>n' r'. odd_factors i n r = Some (n', r') \<and> 0 < n'"
proof (induction "Suc n - i" arbitrary: i n r rule: less_induct)
  case less
  show ?case
  proof (cases "i * i \<le> n")
    case True
    from divide_out_returns [OF less.prems, of r]
    obtain n1 r1 where d: "divide_out i n r = Some (n1, r1)" "0 < n1" "n1 \<le> n" by blast
    from True less.prems have "i \<le> n"
      by (metis le_trans le_square)
    with d have m: "Suc n1 - (i + 2) < Suc n - i" by arith
    from less.hyps [OF m d(2), of r1] less.prems
    obtain n' r' where "odd_factors (i + 2) n1 r1 = Some (n', r')" "0 < n'" by auto
    with True d show ?thesis
      by (subst odd_factors.simps) auto
  next
    case False
    with less.prems show ?thesis
      by (subst odd_factors.simps) auto
  qed
qed

lemma prime_factors_returns: "0 < n \<Longrightarrow> \<exists>fs. prime_factors n = Some fs"
proof -
  assume n: "0 < n"
  from divide_out_returns [OF n, of 2 "[]"]
  obtain n1 r1 where d: "divide_out 2 n [] = Some (n1, r1)" "0 < n1" by auto
  from odd_factors_returns [OF d(2), of 3 r1]
  obtain n2 r2 where "odd_factors 3 n1 r1 = Some (n2, r2)" by auto
  with d show ?thesis by (simp add: prime_factors_def)
qed


lemma div_ceil_le_iff: "0 < d \<Longrightarrow> div_ceil n d \<le> k \<longleftrightarrow> n \<le> k * d"
proof -
  assume d: "0 < d"
  have "div_ceil n d \<le> k \<longleftrightarrow> (n + d - 1) div d < Suc k"
    by (simp add: div_ceil_def less_Suc_eq_le)
  also have "\<dots> \<longleftrightarrow> n + d - 1 < Suc k * d"
    using d by (simp add: div_less_iff_less_mult)
  also have "\<dots> \<longleftrightarrow> n \<le> k * d"
    using d by auto
  finally show ?thesis .
qed

lemma div_ceil_nested:
  assumes "0 < a" "0 < b"
  shows "div_ceil (div_ceil n a) b = div_ceil n (a * b)"
proof (rule antisym)
  have "n \<le> div_ceil n (a * b) * (a * b)"
    using assms div_ceil_le_iff [of "a * b" n "div_ceil n (a * b)"] by simp
  then have "div_ceil n a \<le> div_ceil n (a * b) * b"
    using assms by (simp add: div_ceil_le_iff mult.assoc mult.commute mult.left_commute)
  then show "div_ceil (div_ceil n a) b \<le> div_ceil n (a * b)"
    using assms by (simp add: div_ceil_le_iff)
next
  have "div_ceil n a \<le> div_ceil (div_ceil n a) b * b"
    using assms div_ceil_le_iff [of b "div_ceil n a" "div_ceil (div_ceil n a) b"] by simp
  then have "n \<le> div_ceil (div_ceil n a) b * b * a"
    using assms by (simp add: div_ceil_le_iff)
  then show "div_ceil n (a * b) \<le> div_ceil (div_ceil n a) b"
    using assms by (simp add: div_ceil_le_iff mult.assoc mult.commute mult.left_commute)
qed

lemma div_ceil_one: "div_ceil n (Suc 0) = n"
  by (simp add: div_ceil_def)

lemma div_ceil_eq:
  assumes "0 < d"
  shows "div_ceil n d = (if n mod d = 0 then n div d else Suc (n div d))"
proof (rule antisym)
  show "div_ceil n d \<le> (if n mod d = 0 then n div d else Suc (n div d))"
  proof (cases "n mod d = 0")
    case True
    then have "n = n div d * d" by auto
    then show ?thesis using assms True by (simp add: div_ceil_le_iff)
  next
    case False
    have "n < Suc (n div d) * d"
      using assms by (metis dividend_less_div_times mult.commute mult_Suc add.commute)
    then show ?thesis using assms False by (simp add: div_ceil_le_iff)
  qed
next
  have le: "n \<le> div_ceil n d * d"
    using assms div_ceil_le_iff [of d n "div_ceil n d"] by simp
  show "(if n mod d = 0 then n div d else Suc (n div d)) \<le> div_ceil n d"
  proof (cases "n mod d = 0")
    case True
    from le assms have "n div d \<le> div_ceil n d"
      by (metis div_le_mono div_mult_self_is_m)
    with True show ?thesis by simp
  next
    case False
    have "n div d < div_ceil n d"
    proof (rule ccontr)
      assume "\<not> n div d < div_ceil n d"
      then have "div_ceil n d \<le> n div d" by simp
      then have "div_ceil n d * d \<le> n div d * d" by (rule mult_le_mono1)
      with le have "n \<le> n div d * d" by (rule le_trans)
      moreover have "n div d * d \<le> n" by simp
      ultimately have "n = n div d * d" by simp
      then have "n mod d = 0" by (metis mod_mult_self2_is_0)
      with False show False by simp
    qed
    with False show ?thesis by simp
  qed
qed


lemma div_ceil_step:
  assumes "1 \<le> m" "1 \<le> d" "2 \<le> amt"
  shows "div_ceil (nat (int (div_ceil n (nat (m * d))))) amt = div_ceil n (nat (m * (d * int amt)))"
proof -
  have "0 < nat (m * d)" using assms by simp
  moreover have "0 < amt" using assms by simp
  ultimately have "div_ceil (div_ceil n (nat (m * d))) amt = div_ceil n (nat (m * d) * amt)"
    by (rule div_ceil_nested)
  moreover have "nat (m * d) * amt = nat (m * (d * int amt))"
    using assms by (simp add: nat_mult_distrib mult.assoc)
  ultimately show ?thesis by simp
qed

lemma ge1_mult: "1 \<le> (d::int) \<Longrightarrow> 2 \<le> amt \<Longrightarrow> 1 \<le> d * int amt"
proof -
  assume "1 \<le> d" "2 \<le> amt"
  then have "1 * 1 \<le> d * int amt" by (intro mult_mono) auto
  then show ?thesis by simp
qed

lemma if3_cases: "(if c1 then a else if c2 then b else c) = a \<or>
    (if c1 then a else if c2 then b else c) = b \<or> (if c1 then a else if c2 then b else c) = c"
  by simp

lemma split_step_cases:
  assumes "\<not> amt < 2"
  shows "split_step st amt = (fst st\<lparr>x := int (div_ceil (nat (x (fst st))) amt)\<rparr>, snd st\<lparr>x := x (snd st) * int amt\<rparr>) \<or>
         split_step st amt = (fst st\<lparr>y := int (div_ceil (nat (y (fst st))) amt)\<rparr>, snd st\<lparr>y := y (snd st) * int amt\<rparr>) \<or>
         split_step st amt = (fst st\<lparr>z := int (div_ceil (nat (z (fst st))) amt)\<rparr>, snd st\<lparr>z := z (snd st) * int amt\<rparr>)"
  unfolding split_step_def Let_def
  by (simp only: assms if_False) (rule if3_cases)

lemma ge1_mult_int: "1 \<le> (a::int) \<Longrightarrow> 1 \<le> b \<Longrightarrow> 1 \<le> a * b"
proof -
  assume "1 \<le> a" "1 \<le> b"
  then have "1 * 1 \<le> a * b" by (intro mult_mono) auto
  then show ?thesis by simp
qed

lemma split_step_inv:
  assumes m: "1 \<le> x m" "1 \<le> y m" "1 \<le> z m" and inv: "split_inv X m st"
  shows "split_inv X m (split_step st amt)"
proof (cases "amt < 2")
  case True
  with inv show ?thesis by (simp add: split_step_def)
next
  case False
  then have amt: "2 \<le> amt" by simp
  from inv have d: "1 \<le> x (snd st)" "1 \<le> y (snd st)" "1 \<le> z (snd st)"
    by (simp_all add: split_inv_def)
  have pos: "1 \<le> x (snd st) * int amt" "1 \<le> y (snd st) * int amt" "1 \<le> z (snd st) * int amt"
    using d amt by (simp_all add: ge1_mult)
  from inv have e:
    "x (fst st) = int (div_ceil (nat (x X)) (nat (x m * x (snd st))))"
    "y (fst st) = int (div_ceil (nat (y X)) (nat (y m * y (snd st))))"
    "z (fst st) = int (div_ceil (nat (z X)) (nat (z m * z (snd st))))"
    by (simp_all add: split_inv_def)
  have sx: "div_ceil (nat (x (fst st))) amt = div_ceil (nat (x X)) (nat (x m * (x (snd st) * int amt)))"
    unfolding e(1) using m(1) d(1) amt by (rule div_ceil_step)
  have sy: "div_ceil (nat (y (fst st))) amt = div_ceil (nat (y X)) (nat (y m * (y (snd st) * int amt)))"
    unfolding e(2) using m(2) d(2) amt by (rule div_ceil_step)
  have sz: "div_ceil (nat (z (fst st))) amt = div_ceil (nat (z X)) (nat (z m * (z (snd st) * int amt)))"
    unfolding e(3) using m(3) d(3) amt by (rule div_ceil_step)
  from split_step_cases [OF False, of st]
  consider
    (cx) "split_step st amt = (fst st\<lparr>x := int (div_ceil (nat (x (fst st))) amt)\<rparr>, snd st\<lparr>x := x (snd st) * int amt\<rparr>)"
  | (cy) "split_step st amt = (fst st\<lparr>y := int (div_ceil (nat (y (fst st))) amt)\<rparr>, snd st\<lparr>y := y (snd st) * int amt\<rparr>)"
  | (cz) "split_step st amt = (fst st\<lparr>z := int (div_ceil (nat (z (fst st))) amt)\<rparr>, snd st\<lparr>z := z (snd st) * int amt\<rparr>)"
    by blast
  then show ?thesis
  proof cases
    case cx
    show ?thesis unfolding cx split_inv_def using d pos(1) e(2,3) sx by simp
  next
    case cy
    show ?thesis unfolding cy split_inv_def using d pos(2) e(1,3) sy by simp
  next
    case cz
    show ?thesis unfolding cz split_inv_def using d pos(3) e(1,2) sz by simp
  qed
qed

lemma foldl_split_inv:
  assumes "1 \<le> x m" "1 \<le> y m" "1 \<le> z m"
  shows "split_inv X m st \<Longrightarrow> split_inv X m (foldl split_step st fs)"
  by (induction fs arbitrary: st) (simp_all add: split_step_inv [OF assms])

lemma PFP_ctor_shape:
  assumes X: "0 \<le> x X" "0 \<le> y X" "0 \<le> z X" and W: "1 \<le> W" and G: "1 \<le> G"
  shows "\<exists>p. PFP_ctor X W G = Some p \<and> pfp_size p = X \<and>
            1 \<le> x (pfp_rankDim p) \<and> 1 \<le> y (pfp_rankDim p) \<and> 1 \<le> z (pfp_rankDim p) \<and>
            1 \<le> x (pfp_gpuDim p) \<and> 1 \<le> y (pfp_gpuDim p) \<and> 1 \<le> z (pfp_gpuDim p) \<and>
            x (pfp_domSize p) = int (div_ceil (nat (x X)) (nat (x (pfp_rankDim p) * x (pfp_gpuDim p)))) \<and>
            y (pfp_domSize p) = int (div_ceil (nat (y X)) (nat (y (pfp_rankDim p) * y (pfp_gpuDim p)))) \<and>
            z (pfp_domSize p) = int (div_ceil (nat (z X)) (nat (z (pfp_rankDim p) * z (pfp_gpuDim p))))"
proof -
  from W obtain rf where rf: "prime_factors W = Some rf"
    using prime_factors_returns [of W] by auto
  from G obtain gf where gf: "prime_factors G = Some gf"
    using prime_factors_returns [of G] by auto
  define st1 where "st1 = foldl split_step (X, mkDim3 1 1 1) rf"
  define st2 where "st2 = foldl split_step (fst st1, mkDim3 1 1 1) gf"
  have one: "1 \<le> x (mkDim3 1 1 1)" "1 \<le> y (mkDim3 1 1 1)" "1 \<le> z (mkDim3 1 1 1)"
    by (simp_all add: mkDim3_def)
  have "split_inv X (mkDim3 1 1 1) (X, mkDim3 1 1 1)"
    using X by (simp add: split_inv_def mkDim3_def div_ceil_one)
  then have i1: "split_inv X (mkDim3 1 1 1) st1"
    unfolding st1_def by (rule foldl_split_inv [OF one])
  then have r: "1 \<le> x (snd st1)" "1 \<le> y (snd st1)" "1 \<le> z (snd st1)"
    by (simp_all add: split_inv_def)
  from i1 have "split_inv X (snd st1) (fst st1, mkDim3 1 1 1)"
    by (simp add: split_inv_def mkDim3_def)
  then have i2: "split_inv X (snd st1) st2"
    unfolding st2_def by (rule foldl_split_inv [OF r])
  have "PFP_ctor X W G = Some \<lparr>pfp_gpus = G, pfp_ranks = W, pfp_size = X,
          pfp_gpuDim = snd st2, pfp_rankDim = snd st1, pfp_domSize = fst st2\<rparr>"
    by (simp add: PFP_ctor_def rf gf st1_def st2_def Let_def)
  with r i2 show ?thesis by (simp add: split_inv_def)
qed

lemma local_domain_size_x:
  "x (local_domain_size p idx) =
     x (pfp_domSize p) - (if cmod (x (pfp_size p)) (x (pfp_rankDim p) * x (pfp_gpuDim p)) \<noteq> 0 \<and>
                             cmod (x (pfp_size p)) (x (pfp_rankDim p) * x (pfp_gpuDim p)) \<le> x idx then 1 else 0)"
  by (simp add: local_domain_size_def Let_def dim3_mod_def dim3_mul_def mkDim3_def)

lemma local_domain_size_y:
  "y (local_domain_size p idx) =
     y (pfp_domSize p) - (if cmod (y (pfp_size p)) (y (pfp_rankDim p) * y (pfp_gpuDim p)) \<noteq> 0 \<and>
                             cmod (y (pfp_size p)) (y (pfp_rankDim p) * y (pfp_gpuDim p)) \<le> y idx then 1 else 0)"
  by (simp add: local_domain_size_def Let_def dim3_mod_def dim3_mul_def mkDim3_def)

lemma local_domain_size_z:
  "z (local_domain_size p idx) =
     z (pfp_domSize p) - (if cmod (z (pfp_size p)) (z (pfp_rankDim p) * z (pfp_gpuDim p)) \<noteq> 0 \<and>
                             cmod (z (pfp_size p)) (z (pfp_rankDim p) * z (pfp_gpuDim p)) \<le> z idx then 1 else 0)"
  by (simp add: local_domain_size_def Let_def dim3_mod_def dim3_mul_def mkDim3_def)


lemma div_ceil_pos: "0 < d \<Longrightarrow> 0 < n \<Longrightarrow> 0 < div_ceil n d"
  by (simp add: div_ceil_eq) (metis div_greater_zero_iff mod_less not_gr_zero not_less)

lemma axis_size_nonneg:
  assumes "0 \<le> X" "1 \<le> n"
  shows "0 \<le> int (div_ceil (nat X) (nat n)) - (if cmod X n \<noteq> 0 \<and> cmod X n \<le> i then 1 else 0)"
proof (cases "cmod X n = 0")
  case True
  then show ?thesis by simp
next
  case False
  with assms have "X \<noteq> 0" by (auto simp: cmod_def)
  with assms have "0 < nat X" "0 < nat n" by simp_all
  then have "0 < div_ceil (nat X) (nat n)" by (simp add: div_ceil_pos)
  then show ?thesis by simp
qed

section \<open>Claims about the partitioner\<close>

text \<open>
  Claim C10. For a partition built from a global extent with every component at least 1
  and positive rank and gpu counts, the constructor returns, and for every subdomain index
  (in particular every index inside the grid) each component of \<^verbatim>\<open>local_domain_size\<close> is
  the base split size \<^verbatim>\<open>domSize_\<close> or one less, is not negative, and differs from the same
  component at any other index by at most 1.
\<close>

theorem local_domain_size_within_one:
  assumes "1 \<le> x X" "1 \<le> y X" "1 \<le> z X" and "1 \<le> W" and "1 \<le> G"
  shows "\<exists>p. PFP_ctor X W G = Some p \<and>
           (\<forall>idx idx'.
              (x (local_domain_size p idx) = x (pfp_domSize p) \<or>
               x (local_domain_size p idx) = x (pfp_domSize p) - 1) \<and>
              (y (local_domain_size p idx) = y (pfp_domSize p) \<or>
               y (local_domain_size p idx) = y (pfp_domSize p) - 1) \<and>
              (z (local_domain_size p idx) = z (pfp_domSize p) \<or>
               z (local_domain_size p idx) = z (pfp_domSize p) - 1) \<and>
              0 \<le> x (local_domain_size p idx) \<and>
              0 \<le> y (local_domain_size p idx) \<and>
              0 \<le> z (local_domain_size p idx) \<and>
              \<bar>x (local_domain_size p idx) - x (local_domain_size p idx')\<bar> \<le> 1 \<and>
              \<bar>y (local_domain_size p idx) - y (local_domain_size p idx')\<bar> \<le> 1 \<and>
              \<bar>z (local_domain_size p idx) - z (local_domain_size p idx')\<bar> \<le> 1)"
proof -
  have X: "0 \<le> x X" "0 \<le> y X" "0 \<le> z X" using assms by simp_all
  from PFP_ctor_shape [OF X assms(4,5)] obtain p where
    p: "PFP_ctor X W G = Some p" "pfp_size p = X"
    and g: "1 \<le> x (pfp_rankDim p) * x (pfp_gpuDim p)" "1 \<le> y (pfp_rankDim p) * y (pfp_gpuDim p)"
           "1 \<le> z (pfp_rankDim p) * z (pfp_gpuDim p)"
    and d: "x (pfp_domSize p) = int (div_ceil (nat (x X)) (nat (x (pfp_rankDim p) * x (pfp_gpuDim p))))"
           "y (pfp_domSize p) = int (div_ceil (nat (y X)) (nat (y (pfp_rankDim p) * y (pfp_gpuDim p))))"
           "z (pfp_domSize p) = int (div_ceil (nat (z X)) (nat (z (pfp_rankDim p) * z (pfp_gpuDim p))))"
    by (auto simp: ge1_mult_int)
  have nx: "0 \<le> x (local_domain_size p idx)" for idx
    unfolding local_domain_size_x p(2) d(1) using X(1) g(1) by (rule axis_size_nonneg)
  have ny: "0 \<le> y (local_domain_size p idx)" for idx
    unfolding local_domain_size_y p(2) d(2) using X(2) g(2) by (rule axis_size_nonneg)
  have nz: "0 \<le> z (local_domain_size p idx)" for idx
    unfolding local_domain_size_z p(2) d(3) using X(3) g(3) by (rule axis_size_nonneg)
  have cx: "x (local_domain_size p idx) = x (pfp_domSize p) \<or>
            x (local_domain_size p idx) = x (pfp_domSize p) - 1" for idx
    by (simp add: local_domain_size_x)
  have cy: "y (local_domain_size p idx) = y (pfp_domSize p) \<or>
            y (local_domain_size p idx) = y (pfp_domSize p) - 1" for idx
    by (simp add: local_domain_size_y)
  have cz: "z (local_domain_size p idx) = z (pfp_domSize p) \<or>
            z (local_domain_size p idx) = z (pfp_domSize p) - 1" for idx
    by (simp add: local_domain_size_z)
  have dx: "\<bar>x (local_domain_size p idx) - x (local_domain_size p idx')\<bar> \<le> 1" for idx idx'
    using cx [of idx] cx [of idx'] by arith
  have dy: "\<bar>y (local_domain_size p idx) - y (local_domain_size p idx')\<bar> \<le> 1" for idx idx'
    using cy [of idx] cy [of idx'] by arith
  have dz: "\<bar>z (local_domain_size p idx) - z (local_domain_size p idx')\<bar> \<le> 1" for idx idx'
    using cz [of idx] cz [of idx'] by arith
  show ?thesis
    using p(1) nx ny nz cx cy cz dx dy dz by blast
qed

theorem local_domain_size_within_one_witness:
  "1 \<le> x (mkDim3 7 5 3) \<and> 1 \<le> y (mkDim3 7 5 3) \<and> 1 \<le> z (mkDim3 7 5 3) \<and> (1::nat) \<le> 4 \<and> (1::nat) \<le> 1 \<and>
   (\<exists>p. PFP_ctor (mkDim3 7 5 3) 4 1 = Some p \<and>
      (\<forall>idx idx'. 0 \<le> x (local_domain_size p idx) \<and>
         \<bar>x (local_domain_size p idx) - x (local_domain_size p idx')\<bar> \<le> 1))"
proof -
  have h: "1 \<le> x (mkDim3 7 5 3)" "1 \<le> y (mkDim3 7 5 3)" "1 \<le> z (mkDim3 7 5 3)" "(1::nat) \<le> 4" "(1::nat) \<le> 1"
    by (simp_all add: mkDim3_def)
  from local_domain_size_within_one [OF h] h show ?thesis by blast
qed



text \<open>
  Claim C2, evaluated on the code. For the global extent \<open>(4, 8, 16)\<close>, two ranks and one gpu
  per rank the single factor 2 is applied to the y axis (the rank grid is \<open>(1, 2, 1)\<close> and
  the running extent \<open>(4, 4, 16)\<close>), although splitting z gives cubeness \<open>1/2\<close>, strictly
  more than the \<open>1/4\<close> of splitting y and the \<open>1/8\<close> of splitting x.
\<close>

theorem pfp_splits_y_although_z_is_more_cubic:
  "PFP_ctor (mkDim3 4 8 16) 2 1 =
     Some \<lparr>pfp_gpus = 1, pfp_ranks = 2, pfp_size = mkDim3 4 8 16,
           pfp_gpuDim = mkDim3 1 1 1, pfp_rankDim = mkDim3 1 2 1, pfp_domSize = mkDim3 4 4 16\<rparr> \<and>
   cubeness 4 (of_nat (div_ceil 8 2)) 16 < cubeness 4 8 (of_nat (div_ceil 16 2)) \<and>
   cubeness (of_nat (div_ceil 4 2)) 8 16 < cubeness 4 8 (of_nat (div_ceil 16 2))"
  by code_simp

section \<open>Claims about the halo extent\<close>

lemma dir_ok_neg: "dir_ok (dim3_neg d) = dir_ok d"
  by (auto simp: dir_ok_def dim3_neg_def mkDim3_def)

text \<open>
  Claim C4 as stated fails for an asymmetric radius: with thickness 2 on the \<open>+x\<close> side
  and 1 on the \<open>-x\<close> side, the halo in direction \<open>(1, 0, 0)\<close> of a \<open>1 \<times> 1 \<times> 1\<close> compute
  region has 2 points and the halo in direction \<open>(-1, 0, 0)\<close> has 1.
\<close>

theorem halo_extent_asymmetric_counterexample:
  "map_option flatten (halo_extent (mkDim3 1 0 0) (mkDim3 1 1 1)
       \<lparr>x_neg = 1, x_pos = 2, y_neg = 1, y_pos = 1, z_neg = 1, z_pos = 1\<rparr>) = Some 2 \<and>
   map_option flatten (halo_extent (dim3_neg (mkDim3 1 0 0)) (mkDim3 1 1 1)
       \<lparr>x_neg = 1, x_pos = 2, y_neg = 1, y_pos = 1, z_neg = 1, z_pos = 1\<rparr>) = Some 1 \<and>
   map_option flatten (halo_extent (mkDim3 1 0 0) (mkDim3 1 1 1)
       \<lparr>x_neg = 1, x_pos = 2, y_neg = 1, y_pos = 1, z_neg = 1, z_pos = 1\<rparr>) \<noteq>
   map_option flatten (halo_extent (dim3_neg (mkDim3 1 0 0)) (mkDim3 1 1 1)
       \<lparr>x_neg = 1, x_pos = 2, y_neg = 1, y_pos = 1, z_neg = 1, z_pos = 1\<rparr>)"
  by (simp add: halo_extent_def dir_ok_def dim3_neg_def mkDim3_def flatten_def radius_x_def radius_y_def radius_z_def)

text \<open>
  Claim C4, amended. For every direction \<open>d\<close> in \<open>{-1, 0, 1}\<^sup>3\<close> and every compute size, the
  halo extents of \<open>d\<close> and \<open>-d\<close> have the same number of points when the radius has the same
  thickness on both sides of each axis, and always for the scalar radius.
\<close>

theorem halo_extent_flatten_symmetric:
  assumes "dir_ok d"
  shows "(radius_symmetric R \<longrightarrow>
            (\<exists>e e'. halo_extent d sz R = Some e \<and> halo_extent (dim3_neg d) sz R = Some e' \<and>
               flatten e = flatten e')) \<and>
         (\<exists>e e'. halo_extent_scalar d sz r = Some e \<and> halo_extent_scalar (dim3_neg d) sz r = Some e' \<and>
               flatten e = flatten e')"
proof -
  have n: "dir_ok (dim3_neg d)" using assms by (simp add: dir_ok_neg)
  have c: "x (dim3_neg d) = - x d" "y (dim3_neg d) = - y d" "z (dim3_neg d) = - z d"
    by (simp_all add: dim3_neg_def mkDim3_def)
  show ?thesis
    using assms n
    by (simp add: halo_extent_def halo_extent_scalar_def radius_symmetric_def c
          mkDim3_def flatten_def radius_x_def radius_y_def radius_z_def)
qed

theorem halo_extent_flatten_symmetric_witness:
  "dir_ok (mkDim3 1 (-1) 0) \<and> radius_symmetric (radius_constant 2) \<and>
   (\<exists>e e'. halo_extent (mkDim3 1 (-1) 0) (mkDim3 4 5 6) (radius_constant 2) = Some e \<and>
      halo_extent (dim3_neg (mkDim3 1 (-1) 0)) (mkDim3 4 5 6) (radius_constant 2) = Some e' \<and>
      flatten e = flatten e')"
proof -
  have h: "dir_ok (mkDim3 1 (-1) 0)" by (simp add: dir_ok_def mkDim3_def)
  have s: "radius_symmetric (radius_constant 2)" by (simp add: radius_symmetric_def radius_constant_def)
  from halo_extent_flatten_symmetric [OF h, of "radius_constant 2" "mkDim3 4 5 6" 0] h s
  show ?thesis by blast
qed

section \<open>Claims about the topology probe\<close>

lemma peer_pair_value:
  assumes "setDevice src = cudaSuccess"
  shows "peer_pair setDevice enablePeer src dst pa =
           Inr (pa[src := (pa ! src)[dst := peer_value enablePeer src dst]])"
  using assms
  by (auto simp: peer_pair_def peer_value_def Let_def cudaErrorInvalidDevice_def)

lemma square_update:
  "square n m \<Longrightarrow> square n (m[i := (m ! i)[j := v]])"
  by (cases "i < length m") (auto simp: square_def list_all_length nth_list_update)

lemma peer_dst_loop_value:
  assumes sd: "setDevice src = cudaSuccess" and src: "src < n"
  shows "square n pa \<Longrightarrow>
     \<exists>pa'. peer_dst_loop setDevice enablePeer src dsts pa = Inr pa' \<and> square n pa' \<and>
       (\<forall>i < n. \<forall>j < n. pa' ! i ! j =
          (if i = src \<and> j \<in> set dsts then peer_value enablePeer src j else pa ! i ! j))"
proof (induction dsts arbitrary: pa)
  case Nil
  then show ?case by simp
next
  case (Cons dst dsts)
  let ?pa1 = "pa[src := (pa ! src)[dst := peer_value enablePeer src dst]]"
  have sq: "square n ?pa1" using Cons.prems by (rule square_update)
  from Cons.IH [OF sq] obtain pa' where
    r: "peer_dst_loop setDevice enablePeer src dsts ?pa1 = Inr pa'" "square n pa'"
    and v: "\<forall>i < n. \<forall>j < n. pa' ! i ! j =
          (if i = src \<and> j \<in> set dsts then peer_value enablePeer src j else ?pa1 ! i ! j)"
    by blast
  have u: "?pa1 ! i ! j = (if i = src \<and> j = dst then peer_value enablePeer src dst else pa ! i ! j)"
    if "i < n" "j < n" for i j
    using that Cons.prems src by (auto simp: square_def list_all_length nth_list_update)
  have "\<forall>i < n. \<forall>j < n. pa' ! i ! j =
          (if i = src \<and> j \<in> set (dst # dsts) then peer_value enablePeer src j else pa ! i ! j)"
    using v u by auto
  with r show ?case
    by (simp add: peer_pair_value [of setDevice src, OF sd])
qed

lemma peer_src_loop_value:
  assumes sd: "\<forall>src < n. setDevice src = cudaSuccess"
  shows "square n pa \<Longrightarrow> \<forall>s \<in> set srcs. s < n \<Longrightarrow>
     \<exists>pa'. peer_src_loop setDevice enablePeer n srcs pa = Inr pa' \<and> square n pa' \<and>
       (\<forall>i < n. \<forall>j < n. pa' ! i ! j =
          (if i \<in> set srcs then peer_value enablePeer i j else pa ! i ! j))"
proof (induction srcs arbitrary: pa)
  case Nil
  then show ?case by simp
next
  case (Cons src srcs)
  from Cons.prems have src: "src < n" by simp
  with sd have s: "setDevice src = cudaSuccess" by simp
  from peer_dst_loop_value [of setDevice src n pa enablePeer "[0..<n]", OF s src Cons.prems(1)] obtain pa1 where
    r1: "peer_dst_loop setDevice enablePeer src [0..<n] pa = Inr pa1" "square n pa1"
    and v1: "\<forall>i < n. \<forall>j < n. pa1 ! i ! j =
          (if i = src \<and> j \<in> set [0..<n] then peer_value enablePeer src j else pa ! i ! j)"
    by blast
  from Cons.prems have "\<forall>s \<in> set srcs. s < n" by simp
  from Cons.IH [OF r1(2) this] obtain pa' where
    r: "peer_src_loop setDevice enablePeer n srcs pa1 = Inr pa'" "square n pa'"
    and v: "\<forall>i < n. \<forall>j < n. pa' ! i ! j =
          (if i \<in> set srcs then peer_value enablePeer i j else pa1 ! i ! j)"
    by blast
  have "\<forall>i < n. \<forall>j < n. pa' ! i ! j =
          (if i \<in> set (src # srcs) then peer_value enablePeer i j else pa ! i ! j)"
    using v v1 by auto
  with r r1 show ?case by simp
qed

text \<open>
  Claim C9. When every \<^verbatim>\<open>cudaSetDevice\<close> succeeds, the probe returns a matrix whatever
  the statuses of \<^verbatim>\<open>cudaDeviceEnablePeerAccess\<close> are, and for every ordered pair of distinct
  devices the matrix holds \<^verbatim>\<open>true\<close> exactly when the status was success or
  already-enabled: any other status records "no peer access" and the loop goes on.
\<close>

theorem peer_enable_failure_is_not_fatal:
  assumes "\<forall>src < deviceCount. setDevice src = cudaSuccess"
  shows "\<exists>peerAccess. enable_peer_access setDevice enablePeer deviceCount = Inr peerAccess \<and>
           (\<forall>src < deviceCount. \<forall>dst < deviceCount. src \<noteq> dst \<longrightarrow>
              peerAccess ! src ! dst =
                (enablePeer src dst = cudaSuccess \<or> enablePeer src dst = cudaErrorPeerAccessAlreadyEnabled))"
proof -
  have sq: "square deviceCount (replicate deviceCount (replicate deviceCount False))"
    by (simp add: square_def list_all_length)
  have "\<forall>s \<in> set [0..<deviceCount]. s < deviceCount" by simp
  from peer_src_loop_value [of deviceCount setDevice _ "[0..<deviceCount]" enablePeer, OF assms sq this] obtain pa' where
    r: "enable_peer_access setDevice enablePeer deviceCount = Inr pa'"
    and v: "\<forall>i < deviceCount. \<forall>j < deviceCount. pa' ! i ! j =
          (if i \<in> set [0..<deviceCount] then peer_value enablePeer i j
           else replicate deviceCount (replicate deviceCount False) ! i ! j)"
    unfolding enable_peer_access_def by blast
  from v have "\<forall>src < deviceCount. \<forall>dst < deviceCount. src \<noteq> dst \<longrightarrow>
              pa' ! src ! dst =
                (enablePeer src dst = cudaSuccess \<or> enablePeer src dst = cudaErrorPeerAccessAlreadyEnabled)"
    by (simp add: peer_value_def)
  with r show ?thesis by blast
qed

theorem peer_enable_failure_is_not_fatal_witness:
  "\<exists>peerAccess. enable_peer_access (\<lambda>_. cudaSuccess)
        (\<lambda>src dst. if src = 0 then cudaErrorInvalidDevice else cudaSuccess) 2 = Inr peerAccess \<and>
      peerAccess ! 0 ! 1 = False \<and> peerAccess ! 1 ! 0 = True"
proof -
  have h: "\<forall>src < (2::nat). (\<lambda>_. cudaSuccess) src = cudaSuccess" by simp
  from peer_enable_failure_is_not_fatal [OF h, of "\<lambda>src dst. if src = 0 then cudaErrorInvalidDevice else cudaSuccess"]
  obtain pa where
    r: "enable_peer_access (\<lambda>_. cudaSuccess)
        (\<lambda>src dst. if src = 0 then cudaErrorInvalidDevice else cudaSuccess) 2 = Inr pa"
    and v: "\<forall>src < 2. \<forall>dst < 2. src \<noteq> dst \<longrightarrow>
              pa ! src ! dst =
                ((if src = 0 then cudaErrorInvalidDevice else cudaSuccess) = cudaSuccess \<or>
                 (if src = 0 then cudaErrorInvalidDevice else cudaSuccess) = cudaErrorPeerAccessAlreadyEnabled)"
    by blast
  from v have "pa ! 0 ! 1 = False" "pa ! 1 ! 0 = True"
    by (simp_all add: cudaSuccess_def cudaErrorInvalidDevice_def cudaErrorPeerAccessAlreadyEnabled_def)
  with r show ?thesis by blast
qed

section \<open>Claims about the pointer swap\<close>

text \<open>
  Claim C7. For every subdomain and every field whose two buffers are different
  allocations (as after \<^verbatim>\<open>realize\<close>), one \<^verbatim>\<open>swap\<close> makes the \<^verbatim>\<open>curr\<close> pointer the old \<^verbatim>\<open>next\<close>
  pointer, hence different from its old value, and the \<^verbatim>\<open>next\<close> pointer the old \<^verbatim>\<open>curr\<close>
  pointer; two calls restore every pointer. The swap of two \<^verbatim>\<open>Array\<close>s exchanges their data
  pointers and is undone by a second swap.
\<close>

theorem swap_exchanges_curr_and_next:
  assumes "di < length domains"
    and "i < length (currDataPtrs (domains ! di))"
    and "currDataPtrs (domains ! di) ! i \<noteq> nextDataPtrs (domains ! di) ! i"
  shows "currDataPtrs (dd_swap domains ! di) ! i = nextDataPtrs (domains ! di) ! i \<and>
         nextDataPtrs (dd_swap domains ! di) ! i = currDataPtrs (domains ! di) ! i \<and>
         currDataPtrs (dd_swap domains ! di) ! i \<noteq> currDataPtrs (domains ! di) ! i \<and>
         dd_swap (dd_swap domains) = domains \<and>
         swap_Array (swap_Array (a, b)) = (a, b) \<and>
         arr_data (fst (swap_Array (a, b))) = arr_data b \<and>
         arr_data (snd (swap_Array (a, b))) = arr_data a"
proof -
  have "ld_swap (ld_swap d) = d" for d :: "'a LocalDomain" by (simp add: ld_swap_def)
  then have "dd_swap (dd_swap domains) = domains"
    by (simp add: dd_swap_def comp_def)
  moreover have "swap_Array (swap_Array (a, b)) = (a, b)"
    by (simp add: swap_Array_def Let_def)
  ultimately show ?thesis
    using assms by (simp add: dd_swap_def ld_swap_def swap_Array_def Let_def)
qed

theorem swap_exchanges_curr_and_next_witness:
  "currDataPtrs (dd_swap [\<lparr>ld_sz = mkDim3 10 10 10, ld_radius = 1, currDataPtrs = [4096::nat], nextDataPtrs = [8192],
        dataElemSize = [4], ld_dev = 0\<rparr>] ! 0) ! 0 = 8192 \<and>
   dd_swap (dd_swap [\<lparr>ld_sz = mkDim3 10 10 10, ld_radius = 1, currDataPtrs = [4096::nat], nextDataPtrs = [8192],
        dataElemSize = [4], ld_dev = 0\<rparr>]) =
     [\<lparr>ld_sz = mkDim3 10 10 10, ld_radius = 1, currDataPtrs = [4096::nat], nextDataPtrs = [8192],
        dataElemSize = [4], ld_dev = 0\<rparr>]"
  using swap_exchanges_curr_and_next [of 0 "[\<lparr>ld_sz = mkDim3 10 10 10, ld_radius = 1, currDataPtrs = [4096::nat],
        nextDataPtrs = [8192], dataElemSize = [4], ld_dev = 0\<rparr>]" 0]
  by simp

section \<open>Verification of the packers\<close>

declare stride_range.simps [simp del]

lemma stride_range_bound: "j \<in> set (stride_range i step stop) \<Longrightarrow> j < stop"
proof (induction i step stop rule: stride_range.induct)
  case (1 i step stop)
  then show ?case
    by (subst (asm) (2) stride_range.simps) (auto split: if_splits)
qed

lemma stride_range_cover:
  "0 < step \<Longrightarrow> i \<le> j \<Longrightarrow> j < stop \<Longrightarrow> (j - i) mod step = 0 \<Longrightarrow> j \<in> set (stride_range i step stop)"
proof (induction i step stop rule: stride_range.induct)
  case (1 i step stop)
  show ?case
  proof (cases "j = i")
    case True
    with "1.prems" show ?thesis by (subst stride_range.simps) simp
  next
    case False
    with "1.prems" have lt: "i < j" by simp
    from "1.prems" have "step dvd j - i" by (simp add: mod_eq_0_iff_dvd)
    with lt have "step \<le> j - i" by (simp add: dvd_imp_le)
    with lt have le: "i + step \<le> j" by simp
    have "(j - (i + step)) mod step = 0"
      using "1.prems"(4) le \<open>step \<le> j - i\<close>
      by (metis diff_diff_left le_mod_geq)
    with "1.IH" "1.prems" le have "j \<in> set (stride_range (i + step) step stop)" by simp
    with "1.prems" show ?thesis by (subst stride_range.simps) simp
  qed
qed

lemma set_launch_threads:
  "set (launch_threads (nx, ny, nz)) = {(a, b, c). a < nx \<and> b < ny \<and> c < nz}"
  by (auto simp: image_iff)

lemma set_launch_points:
  assumes "0 < nx" "0 < ny" "0 < nz"
  shows "set (launch_points (nx, ny, nz) extent) =
           {(a, b, c). a < nat (x extent) \<and> b < nat (y extent) \<and> c < nat (z extent)}"
proof (intro set_eqI iffI)
  fix p assume "p \<in> set (launch_points (nx, ny, nz) extent)"
  then show "p \<in> {(a, b, c). a < nat (x extent) \<and> b < nat (y extent) \<and> c < nat (z extent)}"
    by (auto simp: launch_points_def dest: stride_range_bound)
next
  fix p assume p: "p \<in> {(a, b, c). a < nat (x extent) \<and> b < nat (y extent) \<and> c < nat (z extent)}"
  obtain a b c where abc: "p = (a, b, c)" by (cases p) auto
  with p have lt: "a < nat (x extent)" "b < nat (y extent)" "c < nat (z extent)" by simp_all
  have ca: "a \<in> set (stride_range (a mod nx) nx (nat (x extent)))"
    using assms lt by (intro stride_range_cover) (simp_all add: minus_mod_eq_mult_div)
  have cb: "b \<in> set (stride_range (b mod ny) ny (nat (y extent)))"
    using assms lt by (intro stride_range_cover) (simp_all add: minus_mod_eq_mult_div)
  have cc: "c \<in> set (stride_range (c mod nz) nz (nat (z extent)))"
    using assms lt by (intro stride_range_cover) (simp_all add: minus_mod_eq_mult_div)
  have t: "(a mod nx, b mod ny, c mod nz) \<in> set (launch_threads (nx, ny, nz))"
    using assms by (simp add: set_launch_threads del: launch_threads.simps)
  have "p \<in> set (thread_points (nx, ny, nz) (a mod nx, b mod ny, c mod nz) extent)"
    using ca cb cc by (auto simp: abc)
  with t show "p \<in> set (launch_points (nx, ny, nz) extent)"
    unfolding launch_points_def by (auto simp del: thread_points.simps launch_threads.simps)
qed

lemma run_copies_Nil [simp]: "run_copies [] st = st"
  by (simp add: run_copies_def)

lemma run_copies_append: "run_copies (cs @ ds) st = run_copies ds (run_copies cs st)"
  by (simp add: run_copies_def)

lemma run_copies_snoc: "run_copies (cs @ [c]) st = copy1 c (run_copies cs st)"
  by (simp add: run_copies_def)

lemma run_copies_untouched:
  "(p, a) \<notin> fst ` set cs \<Longrightarrow> run_copies cs st p a = st p a"
proof (induction cs rule: rev_induct)
  case Nil
  then show ?case by simp
next
  case (snoc c cs)
  obtain q b r d where c: "c = ((q, b), (r, d))" by (cases c) auto
  from snoc.prems have "(p, a) \<notin> fst ` set cs" "(q, b) \<noteq> (p, a)" by (auto simp: c)
  with snoc.IH show ?case
    by (auto simp: run_copies_snoc c copy1_def)
qed

lemma run_copies_written:
  assumes "fst ` set cs \<inter> snd ` set cs = {}" and "(p, a) \<in> fst ` set cs"
  shows "\<exists>q b. ((p, a), (q, b)) \<in> set cs \<and> run_copies cs st p a = st q b"
  using assms
proof (induction cs rule: rev_induct)
  case Nil
  then show ?case by simp
next
  case (snoc c cs)
  obtain p' a' q b where c: "c = ((p', a'), (q, b))" by (cases c) auto
  from snoc.prems(1) have dis: "fst ` set cs \<inter> snd ` set cs = {}" by auto
  show ?case
  proof (cases "(p', a') = (p, a)")
    case True
    from snoc.prems(1) have "(q, b) \<notin> fst ` set cs" by (auto simp: c)
    then have "run_copies cs st q b = st q b" by (rule run_copies_untouched)
    with True show ?thesis
      by (auto simp: run_copies_snoc c copy1_def intro!: exI [of _ q] exI [of _ b])
  next
    case False
    with snoc.prems(2) have "(p, a) \<in> fst ` set cs" by (auto simp: c)
    from snoc.IH [OF dis this] obtain q' b' where
      "((p, a), (q', b')) \<in> set cs" "run_copies cs st p a = st q' b'" by blast
    with False show ?thesis
      by (auto simp: run_copies_snoc c copy1_def intro!: exI [of _ q'] exI [of _ b'])
  qed
qed

lemma copy_bytes_run:
  "copy_bytes st dst doff src soff n = run_copies (bytes_copies dst doff src soff n) st"
proof -
  have "(\<lambda>b st. st(dst := (st dst)(doff + b := st src (soff + b)))) =
        copy1 \<circ> (\<lambda>b. ((dst, doff + b), (src, soff + b)))"
    by (simp add: fun_eq_iff copy1_def)
  then show ?thesis
    by (simp add: copy_bytes_def run_copies_def bytes_copies_def fold_map)
qed

lemma fold_run_concat:
  assumes "\<And>p st. f p st = run_copies (g p) st"
  shows "fold f ps st = run_copies (concat (map g ps)) st"
  by (induction ps arbitrary: st) (simp_all add: assms run_copies_append)

lemma elem_inj:
  assumes "k < e" "k' < e" "l * e + k = l' * e + (k'::nat)"
  shows "l = l' \<and> k = k'"
proof -
  have "(l * e + k) div e = l" "(l' * e + k') div e = l'" using assms(1,2) by simp_all
  with assms(3) have "l = l'" by metis
  with assms(3) show ?thesis by simp
qed

lemma lin_inj:
  assumes "a < nat (x s)" "a' < nat (x s)" "b < nat (y s)" "b' < nat (y s)"
    and "lin s a b c = lin s a' b' c'"
  shows "a = a' \<and> b = b' \<and> c = c'"
proof -
  have e: "lin s a b c = (c * nat (y s) + b) * nat (x s) + a"
          "lin s a' b' c' = (c' * nat (y s) + b') * nat (x s) + a'"
    by (simp_all add: lin_def algebra_simps)
  from assms(5) have "(c * nat (y s) + b) * nat (x s) + a = (c' * nat (y s) + b') * nat (x s) + a'"
    unfolding e .
  with assms(1,2) have 1: "c * nat (y s) + b = c' * nat (y s) + b'" "a = a'"
    using elem_inj by blast+
  from assms(3,4) 1(1) have "c = c' \<and> b = b'" by (rule elem_inj)
  with 1 show ?thesis by simp
qed

lemma unpack_elem_run:
  "unpack_elem dst dstSize dstPos dstExtent src e p st =
     run_copies (unpack_copies dst dstSize dstPos dstExtent src e p) st"
  by (cases p) (simp add: unpack_copies_def Let_def lin_def copy_bytes_run mult.commute)

lemma pack_elem_run:
  "pack_elem dst src srcSize srcPos srcExtent e p st =
     run_copies (pack_copies dst src srcSize srcPos srcExtent e p) st"
  by (cases p) (simp add: pack_copies_def Let_def lin_def copy_bytes_run mult.commute)


lemma fold_concat_list: "fold f (concat xss) st = fold (\<lambda>xs. fold f xs) xss st"
  by (induction xss arbitrary: st) simp_all

lemma unpack_run:
  "unpack n dst dstSize dstPitch dstPos dstExtent src e st =
     run_copies (concat (map (unpack_copies dst dstSize dstPos dstExtent src e) (launch_points n dstExtent))) st"
proof -
  have "unpack n dst dstSize dstPitch dstPos dstExtent src e st =
          fold (unpack_elem dst dstSize dstPos dstExtent src e) (launch_points n dstExtent) st"
  proof -
    have "(\<lambda>t. grid_unpack n t dst dstSize dstPos dstExtent src e) =
          (\<lambda>t. fold (unpack_elem dst dstSize dstPos dstExtent src e) (thread_points n t dstExtent))"
      by (simp add: fun_eq_iff grid_unpack_def)
    then show ?thesis
      by (simp add: unpack_def launch_points_def fold_concat_list fold_map comp_def)
  qed
  also have "\<dots> = run_copies (concat (map (unpack_copies dst dstSize dstPos dstExtent src e)
      (launch_points n dstExtent))) st"
    by (rule fold_run_concat) (rule unpack_elem_run)
  finally show ?thesis .
qed

lemma pack_kernel_run:
  "pack_kernel n dst src srcSize srcPos srcExtent e st =
     run_copies (concat (map (pack_copies dst src srcSize srcPos srcExtent e) (launch_points n srcExtent))) st"
proof -
  have "pack_kernel n dst src srcSize srcPos srcExtent e st =
          fold (pack_elem dst src srcSize srcPos srcExtent e) (launch_points n srcExtent) st"
  proof -
    have "(\<lambda>t. grid_pack n t dst src srcSize srcPos srcExtent e) =
          (\<lambda>t. fold (pack_elem dst src srcSize srcPos srcExtent e) (thread_points n t srcExtent))"
      by (simp add: fun_eq_iff grid_pack_def)
    then show ?thesis
      by (simp add: pack_kernel_def launch_points_def fold_concat_list fold_map comp_def)
  qed
  also have "\<dots> = run_copies (concat (map (pack_copies dst src srcSize srcPos srcExtent e)
      (launch_points n srcExtent))) st"
    by (rule fold_run_concat) (rule pack_elem_run)
  finally show ?thesis .
qed


lemma in_bytes_copies:
  "c \<in> set (bytes_copies dst doff src soff n) \<longleftrightarrow> (\<exists>k < n. c = ((dst, doff + k), (src, soff + k)))"
  by (auto simp: bytes_copies_def)

lemma in_unpack_copies:
  assumes "0 < nx" "0 < ny" "0 < nz"
  shows "cp \<in> set (concat (map (unpack_copies dst dstSize dstPos ext src e) (launch_points (nx, ny, nz) ext))) \<longleftrightarrow>
     (\<exists>a b c k. a < nat (x ext) \<and> b < nat (y ext) \<and> c < nat (z ext) \<and> k < e \<and>
        cp = ((dst, lin dstSize (a + nat (x dstPos)) (b + nat (y dstPos)) (c + nat (z dstPos)) * e + k),
              (src, lin ext a b c * e + k)))"
  by (auto simp: set_launch_points [OF assms] unpack_copies_def in_bytes_copies)

lemma in_pack_copies:
  assumes "0 < nx" "0 < ny" "0 < nz"
  shows "cp \<in> set (concat (map (pack_copies dst src srcSize srcPos ext e) (launch_points (nx, ny, nz) ext))) \<longleftrightarrow>
     (\<exists>a b c k. a < nat (x ext) \<and> b < nat (y ext) \<and> c < nat (z ext) \<and> k < e \<and>
        cp = ((dst, lin ext a b c * e + k),
              (src, lin srcSize (a + nat (x srcPos)) (b + nat (y srcPos)) (c + nat (z srcPos)) * e + k)))"
  by (auto simp: set_launch_points [OF assms] pack_copies_def in_bytes_copies)

lemma in_translate_copies:
  assumes "0 < nx" "0 < ny" "0 < nz"
  shows "cp \<in> set (concat (map (translate_copies dst dstPos dstSize src srcPos srcSize e) (launch_points (nx, ny, nz) ext))) \<longleftrightarrow>
     (\<exists>a b c k. a < nat (x ext) \<and> b < nat (y ext) \<and> c < nat (z ext) \<and> k < e \<and>
        cp = ((dst, lin dstSize (a + nat (x dstPos)) (b + nat (y dstPos)) (c + nat (z dstPos)) * e + k),
              (src, lin srcSize (a + nat (x srcPos)) (b + nat (y srcPos)) (c + nat (z srcPos)) * e + k)))"
  by (auto simp: set_launch_points [OF assms] translate_copies_def in_bytes_copies)

lemma disjoint_by_alloc:
  assumes "\<And>cp. cp \<in> set cs \<Longrightarrow> fst (fst cp) = p \<and> fst (snd cp) = q" and "p \<noteq> q"
  shows "fst ` set cs \<inter> snd ` set cs = {}"
proof -
  have False if "l \<in> fst ` set cs" "l \<in> snd ` set cs" for l
  proof -
    from that obtain c1 c2 where "c1 \<in> set cs" "l = fst c1" "c2 \<in> set cs" "l = snd c2" by auto
    with assms(1) [of c1] assms(1) [of c2] have "fst l = p" "fst l = q" by auto
    with assms(2) show False by simp
  qed
  then show ?thesis by auto
qed

lemma pack_kernel_written:
  assumes n: "0 < nx" "0 < ny" "0 < nz" and r: "buf \<noteq> src"
    and p: "a < nat (x ext)" "b < nat (y ext)" "c < nat (z ext)" "k < e"
  shows "pack_kernel (nx, ny, nz) buf src srcSize srcPos ext e st buf (lin ext a b c * e + k) =
           st src (lin srcSize (a + nat (x srcPos)) (b + nat (y srcPos)) (c + nat (z srcPos)) * e + k)"
proof -
  let ?cs = "concat (map (pack_copies buf src srcSize srcPos ext e) (launch_points (nx, ny, nz) ext))"
  have "fst (fst cp) = buf \<and> fst (snd cp) = src" if "cp \<in> set ?cs" for cp
    using that unfolding in_pack_copies [OF n] by auto
  then have dis: "fst ` set ?cs \<inter> snd ` set ?cs = {}"
    using r by (rule disjoint_by_alloc)
  have "((buf, lin ext a b c * e + k),
         (src, lin srcSize (a + nat (x srcPos)) (b + nat (y srcPos)) (c + nat (z srcPos)) * e + k)) \<in> set ?cs"
    unfolding in_pack_copies [OF n] using p by blast
  then have "(buf, lin ext a b c * e + k) \<in> fst ` set ?cs" by force
  from run_copies_written [OF dis this, of st] obtain q m where
    m: "((buf, lin ext a b c * e + k), (q, m)) \<in> set ?cs"
    and v: "run_copies ?cs st buf (lin ext a b c * e + k) = st q m" by blast
  from m obtain a' b' c' k' where
    p': "a' < nat (x ext)" "b' < nat (y ext)" "c' < nat (z ext)" "k' < e"
    and eq: "lin ext a b c * e + k = lin ext a' b' c' * e + k'"
    and qm: "q = src" "m = lin srcSize (a' + nat (x srcPos)) (b' + nat (y srcPos)) (c' + nat (z srcPos)) * e + k'"
    unfolding in_pack_copies [OF n] by blast
  from elem_inj [OF p(4) p'(4) eq] have l: "lin ext a b c = lin ext a' b' c'" and "k = k'" by simp_all
  moreover from lin_inj [OF p(1) p'(1) p(2) p'(2) l] have "a = a'" "b = b'" "c = c'" by simp_all
  ultimately show ?thesis using v qm by (simp add: pack_kernel_run)
qed

lemma unpack_written:
  assumes n: "0 < nx" "0 < ny" "0 < nz" and r: "buf \<noteq> dst"
    and p: "a < nat (x ext)" "b < nat (y ext)" "c < nat (z ext)" "k < e"
  shows "\<exists>a' b' c'. a' < nat (x ext) \<and> b' < nat (y ext) \<and> c' < nat (z ext) \<and>
           lin dstSize (a' + nat (x dstPos)) (b' + nat (y dstPos)) (c' + nat (z dstPos)) =
           lin dstSize (a + nat (x dstPos)) (b + nat (y dstPos)) (c + nat (z dstPos)) \<and>
           unpack (nx, ny, nz) dst dstSize dstPitch dstPos ext buf e st dst
             (lin dstSize (a + nat (x dstPos)) (b + nat (y dstPos)) (c + nat (z dstPos)) * e + k) =
           st buf (lin ext a' b' c' * e + k)"
proof -
  let ?cs = "concat (map (unpack_copies dst dstSize dstPos ext buf e) (launch_points (nx, ny, nz) ext))"
  let ?A = "lin dstSize (a + nat (x dstPos)) (b + nat (y dstPos)) (c + nat (z dstPos)) * e + k"
  have "fst (fst cp) = dst \<and> fst (snd cp) = buf" if "cp \<in> set ?cs" for cp
    using that unfolding in_unpack_copies [OF n] by auto
  then have dis: "fst ` set ?cs \<inter> snd ` set ?cs = {}"
    using r [symmetric] by (rule disjoint_by_alloc)
  have "((dst, ?A), (buf, lin ext a b c * e + k)) \<in> set ?cs"
    unfolding in_unpack_copies [OF n] using p by blast
  then have "(dst, ?A) \<in> fst ` set ?cs" by force
  from run_copies_written [OF dis this, of st] obtain q m where
    m: "((dst, ?A), (q, m)) \<in> set ?cs"
    and v: "run_copies ?cs st dst ?A = st q m" by blast
  from m obtain a' b' c' k' where
    p': "a' < nat (x ext)" "b' < nat (y ext)" "c' < nat (z ext)" "k' < e"
    and eq: "?A = lin dstSize (a' + nat (x dstPos)) (b' + nat (y dstPos)) (c' + nat (z dstPos)) * e + k'"
    and qm: "q = buf" "m = lin ext a' b' c' * e + k'"
    unfolding in_unpack_copies [OF n] by blast
  from elem_inj [OF p(4) p'(4) eq] have
    "lin dstSize (a' + nat (x dstPos)) (b' + nat (y dstPos)) (c' + nat (z dstPos)) =
     lin dstSize (a + nat (x dstPos)) (b + nat (y dstPos)) (c + nat (z dstPos))" and "k = k'" by simp_all
  with p' v qm show ?thesis by (auto simp: unpack_run)
qed

text \<open>
  Claim C8. Pack a region (extent \<open>ext\<close> at position \<open>pos\<close> of an allocation \<open>src\<close> with pitch
  \<open>srcSize\<close>) into a buffer and unpack the buffer at the same position and extent of an
  allocation \<open>dst\<close> with the same pitch: every byte \<open>k\<close> of every element \<open>(a, b, c)\<close> of the
  region of \<open>dst\<close> then equals the byte of \<open>src\<close> at the same place, for every element size
  (4, 8 or any other) and whatever the two launch configurations are.
\<close>

theorem pack_then_unpack_restores_region:
  assumes "0 < nx" "0 < ny" "0 < nz" and "0 < mx" "0 < my" "0 < mz"
    and "buf \<noteq> src" and "buf \<noteq> dst"
    and "a < nat (x ext)" "b < nat (y ext)" "c < nat (z ext)" "k < elemSize"
  shows "unpack (mx, my, mz) dst srcSize dstPitch pos ext buf elemSize
           (pack_kernel (nx, ny, nz) buf src srcSize pos ext elemSize st) dst
           (lin srcSize (a + nat (x pos)) (b + nat (y pos)) (c + nat (z pos)) * elemSize + k) =
         st src (lin srcSize (a + nat (x pos)) (b + nat (y pos)) (c + nat (z pos)) * elemSize + k)"
proof -
  let ?st1 = "pack_kernel (nx, ny, nz) buf src srcSize pos ext elemSize st"
  from unpack_written [OF assms(4-6) assms(8) assms(9-12), where dstSize = srcSize and dstPos = pos
      and st = ?st1 and dstPitch = dstPitch]
  obtain a' b' c' where p': "a' < nat (x ext)" "b' < nat (y ext)" "c' < nat (z ext)"
    and l: "lin srcSize (a' + nat (x pos)) (b' + nat (y pos)) (c' + nat (z pos)) =
            lin srcSize (a + nat (x pos)) (b + nat (y pos)) (c + nat (z pos))"
    and v: "unpack (mx, my, mz) dst srcSize dstPitch pos ext buf elemSize ?st1 dst
             (lin srcSize (a + nat (x pos)) (b + nat (y pos)) (c + nat (z pos)) * elemSize + k) =
            ?st1 buf (lin ext a' b' c' * elemSize + k)"
    by blast
  from pack_kernel_written [OF assms(1-3) assms(7) p' assms(12), where srcSize = srcSize and srcPos = pos and st = st]
  have "?st1 buf (lin ext a' b' c' * elemSize + k) =
        st src (lin srcSize (a' + nat (x pos)) (b' + nat (y pos)) (c' + nat (z pos)) * elemSize + k)" .
  with v l show ?thesis by simp
qed

theorem pack_then_unpack_restores_region_witness:
  "unpack (2, 2, 1) (2::nat) (mkDim3 4 4 4) 0 (mkDim3 1 1 1) (mkDim3 2 2 2) 1 4
     (pack_kernel (1, 1, 1) 1 0 (mkDim3 4 4 4) (mkDim3 1 1 1) (mkDim3 2 2 2) 4 (\<lambda>p a. of_nat (p + a))) 2
     (lin (mkDim3 4 4 4) (1 + nat (x (mkDim3 1 1 1))) (0 + nat (y (mkDim3 1 1 1))) (1 + nat (z (mkDim3 1 1 1))) * 4 + 3) =
   (\<lambda>p a. of_nat (p + a)) 0
     (lin (mkDim3 4 4 4) (1 + nat (x (mkDim3 1 1 1))) (0 + nat (y (mkDim3 1 1 1))) (1 + nat (z (mkDim3 1 1 1))) * 4 + 3)"
  by (rule pack_then_unpack_restores_region) (simp_all add: mkDim3_def)

section \<open>Verification of the communication plan\<close>

lemma Dim3_eqI: "x a = x b \<Longrightarrow> y a = y b \<Longrightarrow> z a = z b \<Longrightarrow> a = (b::Dim3)"
  by simp

lemma digits3_inj:
  fixes a b c a' b' c' :: nat
  assumes "a \<le> 2" "b \<le> 2" "c \<le> 2" "a' \<le> 2" "b' \<le> 2" "c' \<le> 2"
    and "c * 9 + b * 3 + a = c' * 9 + b' * 3 + a'"
  shows "a = a' \<and> b = b' \<and> c = c'"
proof -
  have "(c * 3 + b) * 3 + a = (c' * 3 + b') * 3 + a'" using assms(7) by simp
  moreover have "a < 3" "a' < 3" "b < 3" "b' < 3" using assms(1,2,4,5) by simp_all
  ultimately have "c * 3 + b = c' * 3 + b'" "a = a'"
    using elem_inj [of a 3 a' "c * 3 + b" "c' * 3 + b'"] by simp_all
  moreover from \<open>b < 3\<close> \<open>b' < 3\<close> \<open>c * 3 + b = c' * 3 + b'\<close> have "c = c' \<and> b = b'" by (rule elem_inj)
  ultimately show ?thesis by simp
qed

lemma dm_index_inj:
  assumes "dir_ok d" "dir_ok e"
    and "dm_index (nat (x d + 1)) (nat (y d + 1)) (nat (z d + 1)) =
         dm_index (nat (x e + 1)) (nat (y e + 1)) (nat (z e + 1))"
  shows "d = e"
proof -
  have b: "nat (x d + 1) \<le> 2" "nat (y d + 1) \<le> 2" "nat (z d + 1) \<le> 2"
    "nat (x e + 1) \<le> 2" "nat (y e + 1) \<le> 2" "nat (z e + 1) \<le> 2"
    using assms(1,2) by (auto simp: dir_ok_def)
  from digits3_inj [OF b] assms(3) have
    "nat (x d + 1) = nat (x e + 1)" "nat (y d + 1) = nat (y e + 1)" "nat (z d + 1) = nat (z e + 1)"
    by (simp_all add: dm_index_def)
  with assms(1,2) have "x d = x e \<and> y d = y e \<and> z d = z e"
    unfolding dir_ok_def by arith
  then show ?thesis by (simp add: Dim3_eqI)
qed

lemma dm_index_less:
  assumes "dir_ok d"
  shows "dm_index (nat (x d + 1)) (nat (y d + 1)) (nat (z d + 1)) < 27"
  using assms unfolding dir_ok_def dm_index_def by arith

lemma dm_at_dir_set:
  assumes "dir_ok d" "dir_ok e" "length m = 27"
  shows "dm_at_dir (dm_set_dir m d v) e = (if e = d then v else dm_at_dir m e)"
proof (cases "e = d")
  case True
  with assms dm_index_less [OF assms(1)] show ?thesis
    by (simp add: dm_at_dir_def dm_at_def dm_set_dir_def)
next
  case False
  with dm_index_inj [OF assms(1,2)] have
    "dm_index (nat (x d + 1)) (nat (y d + 1)) (nat (z d + 1)) \<noteq>
     dm_index (nat (x e + 1)) (nat (y e + 1)) (nat (z e + 1))" by auto
  with False show ?thesis
    by (simp add: dm_at_dir_def dm_at_def dm_set_dir_def)
qed

lemma set_loop_dirs: "d \<in> set loop_dirs \<longleftrightarrow> dir_ok d"
proof
  assume "d \<in> set loop_dirs"
  then show "dir_ok d" by (auto simp: loop_dirs_def dir_ok_def mkDim3_def)
next
  assume ok: "dir_ok d"
  then have c: "x d = -1 \<or> x d = 0 \<or> x d = 1" "y d = -1 \<or> y d = 0 \<or> y d = 1"
    "z d = -1 \<or> z d = 0 \<or> z d = 1" by (auto simp: dir_ok_def)
  have "d = mkDim3 (x d) (y d) (z d)" by (simp add: mkDim3_def)
  moreover have "mkDim3 (x d) (y d) (z d) \<in> set loop_dirs"
    using c unfolding loop_dirs_def by (elim disjE) simp_all
  ultimately show "d \<in> set loop_dirs" by simp
qed

lemma mixed_radix_bound:
  assumes "0 \<le> a" "a < n" "0 \<le> b" "b < m" "0 \<le> c" "c < l"
  shows "0 \<le> a + b * n + c * m * n \<and> a + b * n + c * m * n < n * m * (l::int)"
proof
  show "0 \<le> a + b * n + c * m * n" using assms by simp
next
  have 1: "a + b * n \<le> (b + 1) * n - 1" using assms by (simp add: algebra_simps)
  have "(b + 1) * n \<le> m * n" using assms by (intro mult_right_mono) simp_all
  with 1 have 2: "a + b * n \<le> m * n - 1" by simp
  have "(c + 1) * (m * n) \<le> l * (m * n)" using assms by (intro mult_right_mono) simp_all
  then have "c * m * n + m * n \<le> n * m * l" by (simp add: algebra_simps)
  with 2 show "a + b * n + c * m * n < n * m * l" by simp
qed

lemma cmod_range: "0 \<le> a \<Longrightarrow> 0 < b \<Longrightarrow> 0 \<le> cmod a b \<and> cmod a b < b"
  by (simp add: cmod_nonneg)

lemma get_gpu_wrap_range:
  assumes g: "1 \<le> x (pfp_gpuDim p)" "1 \<le> y (pfp_gpuDim p)" "1 \<le> z (pfp_gpuDim p)"
    and r: "1 \<le> x (pfp_rankDim p)" "1 \<le> y (pfp_rankDim p)" "1 \<le> z (pfp_rankDim p)"
  shows "0 \<le> get_gpu p (wrap a (dim3_mul (pfp_rankDim p) (pfp_gpuDim p))) \<and>
         get_gpu p (wrap a (dim3_mul (pfp_rankDim p) (pfp_gpuDim p))) <
           x (pfp_gpuDim p) * y (pfp_gpuDim p) * z (pfp_gpuDim p)"
proof -
  let ?w = "wrap a (dim3_mul (pfp_rankDim p) (pfp_gpuDim p))"
  have pos: "0 < x (pfp_rankDim p) * x (pfp_gpuDim p)" "0 < y (pfp_rankDim p) * y (pfp_gpuDim p)"
    "0 < z (pfp_rankDim p) * z (pfp_gpuDim p)"
    using g r by simp_all
  have w: "0 \<le> x ?w" "0 \<le> y ?w" "0 \<le> z ?w"
    using pos by (simp_all add: wrap_def dim3_mul_def mkDim3_def)
  have cx: "0 \<le> cmod (x ?w) (x (pfp_gpuDim p)) \<and> cmod (x ?w) (x (pfp_gpuDim p)) < x (pfp_gpuDim p)"
    using w(1) g(1) by (intro cmod_range) simp_all
  have cy: "0 \<le> cmod (y ?w) (y (pfp_gpuDim p)) \<and> cmod (y ?w) (y (pfp_gpuDim p)) < y (pfp_gpuDim p)"
    using w(2) g(2) by (intro cmod_range) simp_all
  have cz: "0 \<le> cmod (z ?w) (z (pfp_gpuDim p)) \<and> cmod (z ?w) (z (pfp_gpuDim p)) < z (pfp_gpuDim p)"
    using w(3) g(3) by (intro cmod_range) simp_all
  have "get_gpu p ?w = cmod (x ?w) (x (pfp_gpuDim p)) + cmod (y ?w) (y (pfp_gpuDim p)) * x (pfp_gpuDim p)
          + cmod (z ?w) (z (pfp_gpuDim p)) * y (pfp_gpuDim p) * x (pfp_gpuDim p)"
    by (simp add: get_gpu_def Let_def dim3_mod_def mkDim3_def)
  with mixed_radix_bound [of "cmod (x ?w) (x (pfp_gpuDim p))" "x (pfp_gpuDim p)"
      "cmod (y ?w) (y (pfp_gpuDim p))" "y (pfp_gpuDim p)"
      "cmod (z ?w) (z (pfp_gpuDim p))" "z (pfp_gpuDim p)"] cx cy cz
  show ?thesis by simp
qed

lemma square_row: "square n pa \<Longrightarrow> a < n \<Longrightarrow> a < length pa \<and> length (pa ! a) = n"
  by (simp add: square_def list_all_length)

lemma plan_sender_some:
  assumes "di < length gpus" "0 \<le> dstGPU" "nat dstGPU < length gpus"
    and "square n peerAccess" "\<forall>g \<in> set gpus. g < n"
  shows "\<exists>s. plan_sender rank colocated peerAccess gpus di dirVec dstRank dstGPU = Inr (Some s)"
proof -
  from assms have a: "gpus ! di < n" "gpus ! nat dstGPU < n" by simp_all
  from square_row [OF assms(4) a(1)] a(2)
  have "gpus ! di < length peerAccess" "gpus ! nat dstGPU < length (peerAccess ! (gpus ! di))"
    by simp_all
  with assms(1-3) show ?thesis
    by (simp add: plan_sender_def Let_def)
qed

lemma plan_recver_null_iff:
  assumes "di < length gpus" "0 \<le> srcGPU" "nat srcGPU < length gpus"
    and "square n peerAccess" "\<forall>g \<in> set gpus. g < n"
  shows "\<exists>r. plan_recver rank colocated peerAccess gpus di dirVec srcRank srcGPU = Inr r \<and>
             (r = None \<longleftrightarrow> rank = srcRank)"
proof -
  from assms have a: "gpus ! di < n" "gpus ! nat srcGPU < n" by simp_all
  from square_row [OF assms(4) a(2)] a(1)
  have "gpus ! nat srcGPU < length peerAccess" "gpus ! di < length (peerAccess ! (gpus ! nat srcGPU))"
    by simp_all
  with assms(1-3) show ?thesis
    by (simp add: plan_recver_def Let_def)
qed

lemma plan_dir_result:
  assumes g: "1 \<le> x (pfp_gpuDim p)" "1 \<le> y (pfp_gpuDim p)" "1 \<le> z (pfp_gpuDim p)"
    and r: "1 \<le> x (pfp_rankDim p)" "1 \<le> y (pfp_rankDim p)" "1 \<le> z (pfp_rankDim p)"
    and n: "int (length gpus) = x (pfp_gpuDim p) * y (pfp_gpuDim p) * z (pfp_gpuDim p)"
    and di: "di < length gpus"
    and pa: "square n peerAccess" "\<forall>g \<in> set gpus. g < n"
    and d: "d \<noteq> mkDim3 0 0 0"
  shows "\<exists>s rv. plan_dir p rank colocated peerAccess gpus di myIdx d maps =
                  Inr (dm_set_dir (fst maps) d (Some s), dm_set_dir (snd maps) d rv) \<and>
               (rv = None \<longleftrightarrow>
                  rank = get_rank p (wrap (dim3_sub myIdx d) (dim3_mul (pfp_rankDim p) (pfp_gpuDim p))))"
proof -
  let ?grid = "dim3_mul (pfp_rankDim p) (pfp_gpuDim p)"
  let ?dst = "wrap (dim3_add myIdx d) ?grid"
  let ?src = "wrap (dim3_sub myIdx d) ?grid"
  from get_gpu_wrap_range [OF g r, of "dim3_add myIdx d"] n
  have dg: "0 \<le> get_gpu p ?dst" "nat (get_gpu p ?dst) < length gpus" by (simp_all add: nat_less_iff)
  from get_gpu_wrap_range [OF g r, of "dim3_sub myIdx d"] n
  have sg: "0 \<le> get_gpu p ?src" "nat (get_gpu p ?src) < length gpus" by (simp_all add: nat_less_iff)
  from plan_sender_some [OF di dg pa] obtain s where
    s: "plan_sender rank colocated peerAccess gpus di d (get_rank p ?dst) (get_gpu p ?dst) = Inr (Some s)"
    by blast
  from plan_recver_null_iff [OF di sg pa] obtain rv where
    rv: "plan_recver rank colocated peerAccess gpus di d (get_rank p ?src) (get_gpu p ?src) = Inr rv"
      "rv = None \<longleftrightarrow> rank = get_rank p ?src"
    by blast
  from d s rv(1) have "plan_dir p rank colocated peerAccess gpus di myIdx d maps =
                  Inr (dm_set_dir (fst maps) d (Some s), dm_set_dir (snd maps) d rv)"
    by (simp add: plan_dir_def Let_def)
  with rv(2) show ?thesis by blast
qed

lemma plan_dirs_cells:
  assumes g: "1 \<le> x (pfp_gpuDim p)" "1 \<le> y (pfp_gpuDim p)" "1 \<le> z (pfp_gpuDim p)"
    and r: "1 \<le> x (pfp_rankDim p)" "1 \<le> y (pfp_rankDim p)" "1 \<le> z (pfp_rankDim p)"
    and n: "int (length gpus) = x (pfp_gpuDim p) * y (pfp_gpuDim p) * z (pfp_gpuDim p)"
    and di: "di < length gpus"
    and pa: "square n peerAccess" "\<forall>g \<in> set gpus. g < n"
  shows "\<forall>d \<in> set ds. dir_ok d \<Longrightarrow> length (fst maps) = 27 \<Longrightarrow> length (snd maps) = 27 \<Longrightarrow>
     \<exists>ms. plan_dirs p rank colocated peerAccess gpus di myIdx ds maps = Inr ms \<and>
       length (fst ms) = 27 \<and> length (snd ms) = 27 \<and>
       (\<forall>e. dir_ok e \<longrightarrow>
          (if e \<in> set ds \<and> e \<noteq> mkDim3 0 0 0
           then dm_at_dir (fst ms) e \<noteq> None \<and>
                (dm_at_dir (snd ms) e = None \<longleftrightarrow>
                   rank = get_rank p (wrap (dim3_sub myIdx e) (dim3_mul (pfp_rankDim p) (pfp_gpuDim p))))
           else dm_at_dir (fst ms) e = dm_at_dir (fst maps) e \<and>
                dm_at_dir (snd ms) e = dm_at_dir (snd maps) e))"
proof (induction ds arbitrary: maps)
  case Nil
  then show ?case by simp
next
  case (Cons d ds)
  from Cons.prems have dok: "dir_ok d" and dsok: "\<forall>d \<in> set ds. dir_ok d" by simp_all
  show ?case
  proof (cases "d = mkDim3 0 0 0")
    case True
    then have pd: "plan_dir p rank colocated peerAccess gpus di myIdx d maps = Inr maps"
      by (simp add: plan_dir_def)
    from Cons.IH [OF dsok Cons.prems(2,3)] obtain ms where
      ms: "plan_dirs p rank colocated peerAccess gpus di myIdx ds maps = Inr ms"
        "length (fst ms) = 27" "length (snd ms) = 27"
      and c: "\<forall>e. dir_ok e \<longrightarrow>
          (if e \<in> set ds \<and> e \<noteq> mkDim3 0 0 0
           then dm_at_dir (fst ms) e \<noteq> None \<and>
                (dm_at_dir (snd ms) e = None \<longleftrightarrow>
                   rank = get_rank p (wrap (dim3_sub myIdx e) (dim3_mul (pfp_rankDim p) (pfp_gpuDim p))))
           else dm_at_dir (fst ms) e = dm_at_dir (fst maps) e \<and>
                dm_at_dir (snd ms) e = dm_at_dir (snd maps) e)"
      by blast
    have eq: "(e \<in> set (d # ds) \<and> e \<noteq> mkDim3 0 0 0) = (e \<in> set ds \<and> e \<noteq> mkDim3 0 0 0)" for e
      using True by auto
    have run: "plan_dirs p rank colocated peerAccess gpus di myIdx (d # ds) maps = Inr ms"
      using pd ms(1) by simp
    show ?thesis
      unfolding eq by (intro exI [of _ ms] conjI) (rule run ms(2) ms(3) c)+
  next
    case False
    from plan_dir_result [OF g r n di pa False, of rank colocated myIdx maps] obtain s rv where
      pd: "plan_dir p rank colocated peerAccess gpus di myIdx d maps =
             Inr (dm_set_dir (fst maps) d (Some s), dm_set_dir (snd maps) d rv)"
      and rv: "rv = None \<longleftrightarrow>
                  rank = get_rank p (wrap (dim3_sub myIdx d) (dim3_mul (pfp_rankDim p) (pfp_gpuDim p)))"
      by blast
    let ?m1 = "(dm_set_dir (fst maps) d (Some s), dm_set_dir (snd maps) d rv)"
    have l1: "length (fst ?m1) = 27" "length (snd ?m1) = 27"
      using Cons.prems(2,3) by (simp_all add: dm_set_dir_def)
    from Cons.IH [OF dsok l1] obtain ms where
      ms: "plan_dirs p rank colocated peerAccess gpus di myIdx ds ?m1 = Inr ms"
        "length (fst ms) = 27" "length (snd ms) = 27"
      and c: "\<forall>e. dir_ok e \<longrightarrow>
          (if e \<in> set ds \<and> e \<noteq> mkDim3 0 0 0
           then dm_at_dir (fst ms) e \<noteq> None \<and>
                (dm_at_dir (snd ms) e = None \<longleftrightarrow>
                   rank = get_rank p (wrap (dim3_sub myIdx e) (dim3_mul (pfp_rankDim p) (pfp_gpuDim p))))
           else dm_at_dir (fst ms) e = dm_at_dir (fst ?m1) e \<and>
                dm_at_dir (snd ms) e = dm_at_dir (snd ?m1) e)"
      by blast
    have u: "dm_at_dir (fst ?m1) e = (if e = d then Some s else dm_at_dir (fst maps) e)"
            "dm_at_dir (snd ?m1) e = (if e = d then rv else dm_at_dir (snd maps) e)"
      if "dir_ok e" for e
      using that dok Cons.prems(2,3) by (simp_all add: dm_at_dir_set)
    have "\<forall>e. dir_ok e \<longrightarrow>
          (if e \<in> set (d # ds) \<and> e \<noteq> mkDim3 0 0 0
           then dm_at_dir (fst ms) e \<noteq> None \<and>
                (dm_at_dir (snd ms) e = None \<longleftrightarrow>
                   rank = get_rank p (wrap (dim3_sub myIdx e) (dim3_mul (pfp_rankDim p) (pfp_gpuDim p))))
           else dm_at_dir (fst ms) e = dm_at_dir (fst maps) e \<and>
                dm_at_dir (snd ms) e = dm_at_dir (snd maps) e)"
    proof (intro allI impI)
      fix e assume e: "dir_ok e"
      from c e have ce: "if e \<in> set ds \<and> e \<noteq> mkDim3 0 0 0
           then dm_at_dir (fst ms) e \<noteq> None \<and>
                (dm_at_dir (snd ms) e = None \<longleftrightarrow>
                   rank = get_rank p (wrap (dim3_sub myIdx e) (dim3_mul (pfp_rankDim p) (pfp_gpuDim p))))
           else dm_at_dir (fst ms) e = dm_at_dir (fst ?m1) e \<and>
                dm_at_dir (snd ms) e = dm_at_dir (snd ?m1) e" by blast
      show "if e \<in> set (d # ds) \<and> e \<noteq> mkDim3 0 0 0
           then dm_at_dir (fst ms) e \<noteq> None \<and>
                (dm_at_dir (snd ms) e = None \<longleftrightarrow>
                   rank = get_rank p (wrap (dim3_sub myIdx e) (dim3_mul (pfp_rankDim p) (pfp_gpuDim p))))
           else dm_at_dir (fst ms) e = dm_at_dir (fst maps) e \<and>
                dm_at_dir (snd ms) e = dm_at_dir (snd maps) e"
      proof (cases "e \<in> set ds \<and> e \<noteq> mkDim3 0 0 0")
        case True
        with ce show ?thesis by simp
      next
        case notin: False
        with ce have eq: "dm_at_dir (fst ms) e = dm_at_dir (fst ?m1) e"
          "dm_at_dir (snd ms) e = dm_at_dir (snd ?m1) e" by auto
        show ?thesis
        proof (cases "e = d")
          case True
          with eq u [OF e] rv False show ?thesis by simp
        next
          case False
          with eq u [OF e] notin show ?thesis by auto
        qed
      qed
    qed
    then have c': "\<forall>e. dir_ok e \<longrightarrow>
          (if e \<in> set (d # ds) \<and> e \<noteq> mkDim3 0 0 0
           then dm_at_dir (fst ms) e \<noteq> None \<and>
                (dm_at_dir (snd ms) e = None \<longleftrightarrow>
                   rank = get_rank p (wrap (dim3_sub myIdx e) (dim3_mul (pfp_rankDim p) (pfp_gpuDim p))))
           else dm_at_dir (fst ms) e = dm_at_dir (fst maps) e \<and>
                dm_at_dir (snd ms) e = dm_at_dir (snd maps) e)" .
    have run: "plan_dirs p rank colocated peerAccess gpus di myIdx (d # ds) maps = Inr ms"
      using pd ms(1) by simp
    show ?thesis
      by (intro exI [of _ ms] conjI) (rule run ms(2) ms(3) c')+
  qed
qed

text \<open>
  Claim C5. For a local domain \<open>di\<close> with index \<open>myIdx\<close> of the rank \<open>rank\<close>, on a grid with all
  extents at least 1, with one local domain per gpu slot and a peer matrix that covers the
  devices, \<^verbatim>\<open>realize\<close> returns a plan in which the cell of direction \<open>(0, 0, 0)\<close> is null in both
  maps, every other direction of \<open>{-1, 0, 1}\<^sup>3\<close> has a sender, and the receiver of a direction is
  null exactly when the rank of the source neighbour \<open>(myIdx - d) mod grid\<close> is \<open>rank\<close> itself.
\<close>

theorem realize_plan_senders_and_receivers:
  assumes "1 \<le> x (pfp_gpuDim p)" "1 \<le> y (pfp_gpuDim p)" "1 \<le> z (pfp_gpuDim p)"
    and "1 \<le> x (pfp_rankDim p)" "1 \<le> y (pfp_rankDim p)" "1 \<le> z (pfp_rankDim p)"
    and "int (length gpus) = x (pfp_gpuDim p) * y (pfp_gpuDim p) * z (pfp_gpuDim p)"
    and "di < length gpus"
    and "square deviceCount peerAccess" "\<forall>g \<in> set gpus. g < deviceCount"
    and "rank = get_rank p myIdx"
  shows "\<exists>dirSender dirRecver.
           realize_plan p rank colocated peerAccess gpus di myIdx = Inr (dirSender, dirRecver) \<and>
           dm_at_dir dirSender (mkDim3 0 0 0) = None \<and>
           dm_at_dir dirRecver (mkDim3 0 0 0) = None \<and>
           (\<forall>d. dir_ok d \<and> d \<noteq> mkDim3 0 0 0 \<longrightarrow>
              dm_at_dir dirSender d \<noteq> None \<and>
              (dm_at_dir dirRecver d = None \<longleftrightarrow>
                 get_rank p (wrap (dim3_sub myIdx d) (dim3_mul (pfp_rankDim p) (pfp_gpuDim p))) = rank))"
proof -
  have ok: "\<forall>d \<in> set loop_dirs. dir_ok d" by (simp add: set_loop_dirs)
  let ?init = "(replicate 27 None :: HaloSender option list, replicate 27 None :: HaloRecver option list)"
  have l: "length (fst ?init) = 27" "length (snd ?init) = 27"
    by simp_all
  from plan_dirs_cells [OF assms(1-10) ok l, of rank colocated myIdx]
  obtain ms where all:
    "plan_dirs p rank colocated peerAccess gpus di myIdx loop_dirs ?init = Inr ms \<and>
     length (fst ms) = 27 \<and> length (snd ms) = 27 \<and>
     (\<forall>e. dir_ok e \<longrightarrow>
          (if e \<in> set loop_dirs \<and> e \<noteq> mkDim3 0 0 0
           then dm_at_dir (fst ms) e \<noteq> None \<and>
                (dm_at_dir (snd ms) e = None \<longleftrightarrow>
                   rank = get_rank p (wrap (dim3_sub myIdx e) (dim3_mul (pfp_rankDim p) (pfp_gpuDim p))))
           else dm_at_dir (fst ms) e = dm_at_dir (fst ?init) e \<and>
                dm_at_dir (snd ms) e = dm_at_dir (snd ?init) e))" ..
  note ms = all [THEN conjunct1]
  note c = all [THEN conjunct2, THEN conjunct2, THEN conjunct2]
  have z: "dir_ok (mkDim3 0 0 0)" by (simp add: dir_ok_def mkDim3_def)
  have i: "dm_at_dir (replicate 27 None) (mkDim3 0 0 0) = None"
    by (simp add: dm_at_dir_def dm_at_def dm_index_def mkDim3_def)
  have j: "dm_at_dir (replicate 27 None :: HaloRecver option list) (mkDim3 0 0 0) = None"
    by (simp add: dm_at_dir_def dm_at_def dm_index_def mkDim3_def)
  note cz = c [THEN spec, of "mkDim3 0 0 0", THEN mp, OF z]
  from cz have z0: "dm_at_dir (fst ms) (mkDim3 0 0 0) = None" "dm_at_dir (snd ms) (mkDim3 0 0 0) = None"
    by (simp_all add: i j)
  have nz: "\<forall>d. dir_ok d \<and> d \<noteq> mkDim3 0 0 0 \<longrightarrow>
              dm_at_dir (fst ms) d \<noteq> None \<and>
              (dm_at_dir (snd ms) d = None \<longleftrightarrow>
                 get_rank p (wrap (dim3_sub myIdx d) (dim3_mul (pfp_rankDim p) (pfp_gpuDim p))) = rank)"
  proof (intro allI impI)
    fix d assume d: "dir_ok d \<and> d \<noteq> mkDim3 0 0 0"
    then have dok: "dir_ok d" and din: "d \<in> set loop_dirs" and dnz: "d \<noteq> mkDim3 0 0 0"
      by (simp_all add: set_loop_dirs)
    note cd = c [THEN spec, of d, THEN mp, OF dok]
    from cd din dnz show "dm_at_dir (fst ms) d \<noteq> None \<and>
              (dm_at_dir (snd ms) d = None \<longleftrightarrow>
                 get_rank p (wrap (dim3_sub myIdx d) (dim3_mul (pfp_rankDim p) (pfp_gpuDim p))) = rank)"
      by (simp add: eq_commute)
  qed
  have "realize_plan p rank colocated peerAccess gpus di myIdx = Inr (fst ms, snd ms)"
    using ms assms(11) by (simp add: realize_plan_def)
  then show ?thesis
    by (intro exI [of _ "fst ms"] exI [of _ "snd ms"] conjI) (rule z0 nz | assumption)+
qed

theorem realize_plan_senders_and_receivers_witness:
  "\<exists>dirSender dirRecver.
     realize_plan \<lparr>pfp_gpus = 1, pfp_ranks = 2, pfp_size = mkDim3 20 10 10, pfp_gpuDim = mkDim3 1 1 1,
                    pfp_rankDim = mkDim3 2 1 1, pfp_domSize = mkDim3 10 10 10\<rparr>
        0 {0} [[True]] [0] 0 (mkDim3 0 0 0) = Inr (dirSender, dirRecver) \<and>
     dm_at_dir dirSender (mkDim3 0 0 0) = None \<and>
     dm_at_dir dirSender (mkDim3 1 0 0) \<noteq> None \<and>
     dm_at_dir dirRecver (mkDim3 1 0 0) \<noteq> None \<and>
     dm_at_dir dirRecver (mkDim3 0 1 0) = None"
proof -
  let ?p = "\<lparr>pfp_gpus = 1, pfp_ranks = 2, pfp_size = mkDim3 20 10 10, pfp_gpuDim = mkDim3 1 1 1,
             pfp_rankDim = mkDim3 2 1 1, pfp_domSize = mkDim3 10 10 10\<rparr>"
  have h: "1 \<le> x (pfp_gpuDim ?p)" "1 \<le> y (pfp_gpuDim ?p)" "1 \<le> z (pfp_gpuDim ?p)"
    "1 \<le> x (pfp_rankDim ?p)" "1 \<le> y (pfp_rankDim ?p)" "1 \<le> z (pfp_rankDim ?p)"
    "int (length [0::nat]) = x (pfp_gpuDim ?p) * y (pfp_gpuDim ?p) * z (pfp_gpuDim ?p)"
    "(0::nat) < length [0::nat]" "square 1 [[True]]" "\<forall>g \<in> set [0::nat]. g < 1"
    "(0::int) = get_rank ?p (mkDim3 0 0 0)"
    by (simp_all add: mkDim3_def square_def get_rank_def dim3_div_def cdiv_def)
  from realize_plan_senders_and_receivers [OF h, of "{0}"] obtain dirSender dirRecver where
    r: "realize_plan ?p 0 {0} [[True]] [0] 0 (mkDim3 0 0 0) = Inr (dirSender, dirRecver)"
    and z: "dm_at_dir dirSender (mkDim3 0 0 0) = None"
    and c: "\<forall>d. dir_ok d \<and> d \<noteq> mkDim3 0 0 0 \<longrightarrow>
              dm_at_dir dirSender d \<noteq> None \<and>
              (dm_at_dir dirRecver d = None \<longleftrightarrow>
                 get_rank ?p (wrap (dim3_sub (mkDim3 0 0 0) d) (dim3_mul (pfp_rankDim ?p) (pfp_gpuDim ?p))) = 0)"
    by blast
  have d1: "dir_ok (mkDim3 1 0 0) \<and> mkDim3 1 0 0 \<noteq> mkDim3 0 0 0"
    and d2: "dir_ok (mkDim3 0 1 0) \<and> mkDim3 0 1 0 \<noteq> mkDim3 0 0 0"
    by (simp_all add: dir_ok_def mkDim3_def)
  from c [THEN spec, THEN mp, OF d1] have "dm_at_dir dirSender (mkDim3 1 0 0) \<noteq> None"
    "dm_at_dir dirRecver (mkDim3 1 0 0) \<noteq> None"
    by (simp_all add: get_rank_def wrap_def dim3_sub_def dim3_mul_def dim3_div_def cdiv_def mkDim3_def)
  moreover from c [THEN spec, THEN mp, OF d2] have "dm_at_dir dirRecver (mkDim3 0 1 0) = None"
    by (simp add: get_rank_def wrap_def dim3_sub_def dim3_mul_def dim3_div_def cdiv_def mkDim3_def)
  ultimately show ?thesis using r z by blast
qed

section \<open>Verification of the exchange\<close>

declare thread_points.simps [simp del] launch_threads.simps [simp del]



















lemma compute_axis_inside:
  assumes "a < nat s"
  shows "r \<le> a + nat (halo_pos_axis 0 s r h) \<and> a + nat (halo_pos_axis 0 s r h) < r + nat s"
  using assms by (simp add: halo_pos_axis_def)



















section \<open>Claims about the exchange\<close>





end
